theory Spec2Isabelle
  imports Complex_Main "HOL-Library.AList"
begin

section \<open>Player problems\<close>

text \<open>
  \<^verbatim>\<open>PlayerProblem\<close> (players/types): a severity, a message, an optional tip and an
  optional underlying error (kept as its message).
\<close>

datatype Severity = SevError | SevWarn | SevInfo

record PlayerProblem =
  severity :: Severity
  message :: string
  tip :: "string option"
  error :: "string option"

subsection \<open>PlayerProblemManager.ts\<close>

text \<open>
  The class holds \<^verbatim>\<open>#problemsById\<close>, a JavaScript \<^verbatim>\<open>Map\<close> (an association list in
  insertion order, keys distinct) and \<^verbatim>\<open>#problems\<close>, the cached array or undefined.
  The claim about \<^verbatim>\<open>problems()\<close> is about object identity, so an array is a pair of
  an identity and its elements, and the manager counts the arrays it has allocated:
  \<^verbatim>\<open>Array.from\<close> returns an object that is identical to none allocated before.
  The console call of \<^verbatim>\<open>addProblem\<close> only logs and is left out.
\<close>

record ProblemArray =
  ident :: nat
  elems :: "PlayerProblem list"

record PlayerProblemManager =
  problemsById :: "(string \<times> PlayerProblem) list"
  problemsCache :: "ProblemArray option"
  allocated :: nat

definition newPlayerProblemManager :: PlayerProblemManager where
  "newPlayerProblemManager = \<lparr>problemsById = [], problemsCache = None, allocated = 0\<rparr>"

text \<open>\<^verbatim>\<open>return (this.#problems ??= Array.from(this.#problemsById.values()))\<close>\<close>

definition problems :: "PlayerProblemManager \<Rightarrow> ProblemArray \<times> PlayerProblemManager" where
  "problems m =
     (case problemsCache m of
        Some a \<Rightarrow> (a, m)
      | None \<Rightarrow>
          (let a = \<lparr>ident = allocated m, elems = map snd (problemsById m)\<rparr>
           in (a, m\<lparr>problemsCache := Some a, allocated := Suc (allocated m)\<rparr>)))"

text \<open>\<^verbatim>\<open>Map.set\<close> replaces the value of a key in place and appends a new key.\<close>

definition addProblem :: "string \<Rightarrow> PlayerProblem \<Rightarrow> PlayerProblemManager \<Rightarrow> PlayerProblemManager" where
  "addProblem pid problem m =
     m\<lparr>problemsById := AList.update pid problem (problemsById m), problemsCache := None\<rparr>"

definition hasProblem :: "string \<Rightarrow> PlayerProblemManager \<Rightarrow> bool" where
  "hasProblem pid m = (map_of (problemsById m) pid \<noteq> None)"

text \<open>\<^verbatim>\<open>Map.delete\<close> returns whether the key was there.\<close>

definition mapDelete :: "string \<Rightarrow> (string \<times> 'v) list \<Rightarrow> bool \<times> (string \<times> 'v) list" where
  "mapDelete k al = (map_of al k \<noteq> None, AList.delete k al)"

definition removeProblem :: "string \<Rightarrow> PlayerProblemManager \<Rightarrow> bool \<times> PlayerProblemManager" where
  "removeProblem pid m =
     (let (changed, al) = mapDelete pid (problemsById m);
          m1 = m\<lparr>problemsById := al\<rparr>
      in if changed then (changed, m1\<lparr>problemsCache := None\<rparr>) else (changed, m1))"

text \<open>
  The loop of \<^verbatim>\<open>removeProblems\<close> visits the entries of the map in order; deleting the
  entry being visited does not disturb the visit of the later ones.
\<close>

fun removeLoop :: "(string \<Rightarrow> PlayerProblem \<Rightarrow> bool) \<Rightarrow> (string \<times> PlayerProblem) list \<Rightarrow>
    bool \<times> (string \<times> PlayerProblem) list \<Rightarrow> bool \<times> (string \<times> PlayerProblem) list" where
  "removeLoop predicate [] (changed, al) = (changed, al)"
| "removeLoop predicate ((pid, problem) # rest) (changed, al) =
     (if predicate pid problem
      then (let (deleted, al1) = mapDelete pid al
            in removeLoop predicate rest (if deleted then True else changed, al1))
      else removeLoop predicate rest (changed, al))"

definition removeProblems ::
  "(string \<Rightarrow> PlayerProblem \<Rightarrow> bool) \<Rightarrow> PlayerProblemManager \<Rightarrow> bool \<times> PlayerProblemManager" where
  "removeProblems predicate m =
     (let (changed, al) = removeLoop predicate (problemsById m) (False, problemsById m);
          m1 = m\<lparr>problemsById := al\<rparr>
      in if changed then (changed, m1\<lparr>problemsCache := None\<rparr>) else (changed, m1))"

definition clear :: "PlayerProblemManager \<Rightarrow> PlayerProblemManager" where
  "clear m = m\<lparr>problemsById := [], problemsCache := None\<rparr>"

text \<open>Calls on a manager, and what a call returns.\<close>

datatype ProblemCall =
    CallProblems
  | CallAddProblem string PlayerProblem
  | CallHasProblem string
  | CallRemoveProblem string
  | CallRemoveProblems "string \<Rightarrow> PlayerProblem \<Rightarrow> bool"
  | CallClear

datatype ProblemReturn = RetArray ProblemArray | RetBool bool | RetVoid

fun callManager :: "ProblemCall \<Rightarrow> PlayerProblemManager \<Rightarrow> ProblemReturn \<times> PlayerProblemManager" where
  "callManager CallProblems m = (let (a, m1) = problems m in (RetArray a, m1))"
| "callManager (CallAddProblem pid problem) m = (RetVoid, addProblem pid problem m)"
| "callManager (CallHasProblem pid) m = (RetBool (hasProblem pid m), m)"
| "callManager (CallRemoveProblem pid) m = (let (b, m1) = removeProblem pid m in (RetBool b, m1))"
| "callManager (CallRemoveProblems predicate) m =
     (let (b, m1) = removeProblems predicate m in (RetBool b, m1))"
| "callManager CallClear m = (RetVoid, clear m)"

fun callsManager :: "ProblemCall list \<Rightarrow> PlayerProblemManager \<Rightarrow> PlayerProblemManager" where
  "callsManager [] m = m"
| "callsManager (c # cs) m = callsManager cs (snd (callManager c m))"

text \<open>
  A call that leaves the registry as it is: \<^verbatim>\<open>problems\<close>, \<^verbatim>\<open>hasProblem\<close>, and a
  \<^verbatim>\<open>removeProblem\<close> or \<^verbatim>\<open>removeProblems\<close> that returns false.
\<close>

fun removesNothing :: "ProblemCall \<Rightarrow> PlayerProblemManager \<Rightarrow> bool" where
  "removesNothing CallProblems m = True"
| "removesNothing (CallHasProblem pid) m = True"
| "removesNothing (CallRemoveProblem pid) m = (fst (callManager (CallRemoveProblem pid) m) = RetBool False)"
| "removesNothing (CallRemoveProblems predicate) m =
     (fst (callManager (CallRemoveProblems predicate) m) = RetBool False)"
| "removesNothing (CallAddProblem pid problem) m = False"
| "removesNothing CallClear m = False"

fun allRemoveNothing :: "ProblemCall list \<Rightarrow> PlayerProblemManager \<Rightarrow> bool" where
  "allRemoveNothing [] m = True"
| "allRemoveNothing (c # cs) m = (removesNothing c m \<and> allRemoveNothing cs (snd (callManager c m)))"

text \<open>The cached array, when there is one, holds the values of the map.\<close>

definition cacheValid :: "PlayerProblemManager \<Rightarrow> bool" where
  "cacheValid m = (case problemsCache m of None \<Rightarrow> True | Some a \<Rightarrow> elems a = map snd (problemsById m))"

section \<open>Time\<close>

text \<open>
  The player imports \<^verbatim>\<open>compare\<close>, \<^verbatim>\<open>clampTime\<close>, \<^verbatim>\<open>add\<close> and \<^verbatim>\<open>fromMillis\<close> from the
  time library \<^verbatim>\<open>@foxglove/rostime\<close>, which is not part of the repository. The spec has
  a time as seconds and nanoseconds, compared by a total order with exact equality, and
  the player writes the literal \<^verbatim>\<open>{ sec: 0, nsec: 1 }\<close>. JavaScript numbers are taken as
  exact: an integer field is an \<^typ>\<open>int\<close>, a number of milliseconds is a \<^typ>\<open>real\<close>;
  rounding errors, NaN and infinities are not modelled.
\<close>

text \<open>An error that is thrown, with its message.\<close>

datatype JsError = Error string

record Time =
  sec :: int
  nsec :: int

text \<open>
  Modelled from the spec: \<^verbatim>\<open>compare\<close> of the time library, missing from the sources. It
  orders two times by their seconds, then by their nanoseconds: negative, zero or
  positive as the left time is before, equal to or after the right one.
\<close>

definition compare :: "Time \<Rightarrow> Time \<Rightarrow> int" where
  "compare left right =
     (let secDiff = sec left - sec right
      in if secDiff \<noteq> 0 then secDiff else nsec left - nsec right)"

text \<open>
  Modelled from the spec: \<^verbatim>\<open>clampTime\<close> of the time library, missing from the sources. It
  clamps a time to a range: the start when the start is after the time, else the end
  when the end is before the time, else the time.
\<close>

definition clampTime :: "Time \<Rightarrow> Time \<Rightarrow> Time \<Rightarrow> Time" where
  "clampTime time startTime endTime =
     (if compare startTime time > 0 then \<lparr>sec = sec startTime, nsec = nsec startTime\<rparr>
      else if compare endTime time < 0 then \<lparr>sec = sec endTime, nsec = nsec endTime\<rparr>
      else \<lparr>sec = sec time, nsec = nsec time\<rparr>)"

text \<open>\<^verbatim>\<open>Math.trunc\<close>, \<^verbatim>\<open>Math.round\<close> (a half rounds up) and the remainder \<^verbatim>\<open>%\<close>, whose sign is
  the sign of the dividend.\<close>

definition jsTrunc :: "real \<Rightarrow> int" where
  "jsTrunc x = (if x < 0 then \<lceil>x\<rceil> else \<lfloor>x\<rfloor>)"

definition jsRound :: "real \<Rightarrow> int" where
  "jsRound x = \<lfloor>x + 1 / 2\<rfloor>"

definition jsRem :: "int \<Rightarrow> int \<Rightarrow> int" where
  "jsRem a b = (if a < 0 then - ((- a) mod \<bar>b\<bar>) else a mod \<bar>b\<bar>)"

text \<open>
  Modelled from the spec: \<^verbatim>\<open>add\<close> of the time library, missing from the sources, which the
  tick uses for the current time plus the range. It adds field by field and normalises
  (\<^verbatim>\<open>fixTime\<close>): whole seconds of the nanoseconds are carried, the nanoseconds end in
  \<open>[0, 10\<^sup>9)\<close>, and a sum whose seconds are negative is an error.
\<close>

definition fixTime :: "Time \<Rightarrow> JsError + Time" where
  "fixTime t =
     (let durationNanos = nsec t;
          secsFromNanos = durationNanos div 1000000000;
          newSecs = sec t + secsFromNanos;
          remainingDurationNanos = jsRem durationNanos 1000000000;
          newNanos = \<bar>if remainingDurationNanos < 0 then 1000000000 + remainingDurationNanos
                      else remainingDurationNanos\<bar>
      in if newSecs < 0 \<or> newNanos < 0 then Inl (Error ''Cannot normalize invalid time'')
         else Inr \<lparr>sec = newSecs, nsec = newNanos\<rparr>)"

definition add :: "Time \<Rightarrow> Time \<Rightarrow> JsError + Time" where
  "add t1 t2 = fixTime \<lparr>sec = sec t1 + sec t2, nsec = nsec t1 + nsec t2\<rparr>"

text \<open>
  Modelled from the spec: \<^verbatim>\<open>fromMillis\<close> of the time library, missing from the sources,
  which turns the range of the tick, a number of milliseconds, into a time: the whole
  seconds, and the rest rounded to a whole number of nanoseconds.
\<close>

definition fromMillis :: "real \<Rightarrow> Time" where
  "fromMillis v =
     (let sec0 = jsTrunc (v / 1000);
          nsec0 = jsRound ((v - of_int sec0 * 1000) * 1000000);
          sec1 = sec0 + jsTrunc (of_int nsec0 / 1000000000);
          nsec1 = jsRem nsec0 1000000000
      in \<lparr>sec = sec1, nsec = nsec1\<rparr>)"

section \<open>The data of the player\<close>

text \<open>Decimal digits of a number, as a template literal prints them.\<close>

fun showNat :: "nat \<Rightarrow> string" where
  "showNat n = (if n < 10 then [char_of (48 + n)] else showNat (n div 10) @ [char_of (48 + n mod 10)])"

declare showNat.simps [simp del]

text \<open>
  The types of players/types and of IIterableSource, as far as the player reads them.
  The fields of a message event other than its receive time are carried along unread.
\<close>

datatype PreloadType = Full | Partial

text \<open>
  An optional property of an object is missing, or there with the value
  \<^verbatim>\<open>undefined\<close>, or there with a value. Reading it gives \<^verbatim>\<open>undefined\<close> in the first two
  cases, but \<^verbatim>\<open>_.isEqual\<close> tells the two apart: it compares the keys of two objects
  before their values.
\<close>

datatype 'a Property = Missing | Undefined | Present 'a

record SubscribePayload =
  topic :: string
  preloadType :: "PreloadType Property"
  fields' :: "string list Property"

record Topic =
  name :: string
  schemaName :: "string option"

record MessageEvent =
  eventTopic :: string
  receiveTime :: Time
  eventMessage :: string
  sizeInBytes :: nat

datatype IteratorResult =
    ResultMessageEvent MessageEvent
  | ResultProblem nat PlayerProblem
  | ResultStamp Time

text \<open>A \<^verbatim>\<open>TopicSelection\<close> is a \<^verbatim>\<open>Map\<close> from topic name to subscription.\<close>

type_synonym TopicSelection = "(string \<times> SubscribePayload) list"

text \<open>\<^verbatim>\<open>new Map(entries)\<close>: the entries are set one after the other.\<close>

definition newMap :: "(string \<times> 'v) list \<Rightarrow> (string \<times> 'v) list" where
  "newMap entries = foldl (\<lambda>m (k, v). AList.update k v m) [] entries"

text \<open>
  \<^verbatim>\<open>_.isEqual\<close> on two maps: the same size, and the same entries whatever their order
  (the keys of a map are distinct, so the entries of each form a set). Two entries are
  the same when their keys are equal strings and their subscriptions are deep-equal
  objects: the same properties present, with equal values. That is the equality of
  \<^typ>\<open>SubscribePayload\<close>, which keeps a missing property apart from an undefined one.
\<close>

definition isEqualMap :: "(string \<times> SubscribePayload) list \<Rightarrow> (string \<times> SubscribePayload) list \<Rightarrow> bool" where
  "isEqualMap m1 m2 = (length m1 = length m2 \<and> set m1 = set m2)"

text \<open>\<^verbatim>\<open>filterMap\<close> of den/collection: map, and drop the undefined results.\<close>

definition filterMap :: "'a list \<Rightarrow> ('a \<Rightarrow> 'b option) \<Rightarrow> 'b list" where
  "filterMap xs f = List.map_filter f xs"

datatype IterablePlayerState =
    Preinit | Initialize | StartPlay | Idle | SeekBackfill | Play | Close | ResetPlaybackIterator

datatype PlayerPresence = INITIALIZING | BUFFERING | PRESENT | ERROR

text \<open>
  The calls the player makes on its collaborators, in the order it makes them: the
  metrics collector, the debounced \<^verbatim>\<open>#queueEmitState\<close>, the abort controller, the block
  loader, the \<^verbatim>\<open>return\<close> of the playback iterator, and the line
  \<^verbatim>\<open>Start state: ...\<close> that \<^verbatim>\<open>#runState\<close> logs for each state it runs. The
  \<^verbatim>\<open>console.log\<close> lines are left out.
\<close>

datatype Effect =
    MetricsPlay real
  | MetricsPause
  | MetricsSeek Time
  | MetricsSetSpeed real
  | MetricsSetSubscriptions "SubscribePayload list"
  | QueueEmitState
  | AbortSignal
  | BlockLoaderSetTopics TopicSelection
  | IteratorReturn
  | LogStartState IterablePlayerState

text \<open>
  The private fields of \<^verbatim>\<open>IterablePlayer\<close> that the modelled methods read or write.
  \<^verbatim>\<open>#end\<close> is written \<open>end'\<close>. \<^verbatim>\<open>#playbackIterator\<close> is the list of the results the
  iterator has still to yield. \<^verbatim>\<open>#abort\<close> and \<^verbatim>\<open>#blockLoader\<close> say whether the object
  is there. \<^verbatim>\<open>statePlay\<close> compares \<^verbatim>\<open>#allTopics\<close> by identity: \<open>allTopicsId\<close> is the
  identity of the map the field holds, a new one at each assignment.
\<close>

record IterablePlayer =
  nextState :: "IterablePlayerState option"
  state :: IterablePlayerState
  runningState :: bool
  isPlaying :: bool
  speed :: real
  start :: "Time option"
  end' :: "Time option"
  lastTickMillis :: "real option"
  providerTopics :: "Topic list"
  subscriptions :: "SubscribePayload list"
  allTopics :: TopicSelection
  allTopicsId :: nat
  preloadTopics :: TopicSelection
  messages :: "MessageEvent list"
  hasError :: bool
  lastRangeMillis :: "real option"
  lastMessageEvent :: "MessageEvent option"
  lastStamp :: "Time option"
  seekTarget :: "Time option"
  presence :: PlayerPresence
  currentTime :: "Time option"
  problemManager :: PlayerProblemManager
  abort :: bool
  playbackIterator :: "IteratorResult list option"
  blockLoader :: bool
  untilTime :: "Time option"
  effects :: "Effect list"

text \<open>The field initialisers of the class.\<close>

definition newIterablePlayer :: IterablePlayer where
  "newIterablePlayer =
     \<lparr>nextState = None, state = Preinit, runningState = False, isPlaying = False, speed = 1,
      start = None, end' = None, lastTickMillis = None, providerTopics = [],
      subscriptions = [], allTopics = [], allTopicsId = 0, preloadTopics = [], messages = [],
      hasError = False, lastRangeMillis = None, lastMessageEvent = None, lastStamp = None,
      seekTarget = None, presence = INITIALIZING, currentTime = None,
      problemManager = newPlayerProblemManager, abort = False, playbackIterator = None,
      blockLoader = False, untilTime = None, effects = []\<rparr>"

definition effect :: "Effect \<Rightarrow> IterablePlayer \<Rightarrow> IterablePlayer" where
  "effect e p = p\<lparr>effects := effects p @ [e]\<rparr>"

definition queueEmitState :: "IterablePlayer \<Rightarrow> IterablePlayer" where
  "queueEmitState p = effect QueueEmitState p"

section \<open>The run loop\<close>

text \<open>
  \<^verbatim>\<open>#runState\<close> is asynchronous: it awaits the handler of each state, and calls of the
  public methods arrive while it is suspended. The model cuts it at these awaits.
  \<open>startNextState\<close> is one turn of the \<^verbatim>\<open>while (this.#nextState)\<close> loop up to the
  \<^verbatim>\<open>switch\<close>: it takes the requested state, logs it, and drops the playback iterator
  when the state is neither idle nor play; when nothing is requested the loop ends and
  \<^verbatim>\<open>finally\<close> clears \<^verbatim>\<open>#runningState\<close>. The case \<^verbatim>\<open>preinit\<close> has no await: it queues
  an emit and the loop ends at once. The handler of any other state is a step of its
  own, which ends by returning or by throwing.
\<close>

definition startNextState :: "IterablePlayer \<Rightarrow> IterablePlayer" where
  "startNextState p =
     (case nextState p of
        None \<Rightarrow> p\<lparr>runningState := False\<rparr>
      | Some s \<Rightarrow>
          (let p1 = effect (LogStartState s) (p\<lparr>state := s, nextState := None\<rparr>);
               p2 = (if s \<noteq> Idle \<and> s \<noteq> Play \<and> playbackIterator p1 \<noteq> None
                     then (effect IteratorReturn p1)\<lparr>playbackIterator := None\<rparr> else p1)
           in if s = Preinit then (queueEmitState p2)\<lparr>runningState := False\<rparr> else p2))"

definition runState :: "IterablePlayer \<Rightarrow> IterablePlayer" where
  "runState p = (if runningState p then p else startNextState (p\<lparr>runningState := True\<rparr>))"

definition setState :: "IterablePlayerState \<Rightarrow> IterablePlayer \<Rightarrow> IterablePlayer" where
  "setState newState p =
     (if nextState p = Some Close then p
      else (let p1 = p\<lparr>nextState := Some newState\<rparr>;
                p2 = (if abort p1 then effect AbortSignal p1 else p1)\<lparr>abort := False\<rparr>
            in runState p2))"

definition setError :: "string \<Rightarrow> IterablePlayer \<Rightarrow> IterablePlayer" where
  "setError msg p =
     p\<lparr>hasError := True,
       problemManager := addProblem ''global-error''
         \<lparr>severity = SevError, message = msg, tip = None, error = Some msg\<rparr> (problemManager p),
       isPlaying := False\<rparr>"

text \<open>
  What happens to the run loop: a state is requested, the handler that is running
  returns, or it throws (the \<^verbatim>\<open>catch\<close> of \<^verbatim>\<open>#runState\<close> records the error, queues an
  emit and leaves the loop).
\<close>

datatype RunEvent = Request IterablePlayerState | HandlerReturns | HandlerThrows string

fun runEvent :: "RunEvent \<Rightarrow> IterablePlayer \<Rightarrow> IterablePlayer" where
  "runEvent (Request s) p = setState s p"
| "runEvent HandlerReturns p = (if runningState p then startNextState p else p)"
| "runEvent (HandlerThrows msg) p =
     (if runningState p then (queueEmitState (setError msg p))\<lparr>runningState := False\<rparr> else p)"

fun runEvents :: "RunEvent list \<Rightarrow> IterablePlayer \<Rightarrow> IterablePlayer" where
  "runEvents [] p = p"
| "runEvents (e # es) p = runEvents es (runEvent e p)"

text \<open>The states the run loop has started, oldest first.\<close>

fun startedStates :: "Effect list \<Rightarrow> IterablePlayerState list" where
  "startedStates [] = []"
| "startedStates (LogStartState s # es) = s # startedStates es"
| "startedStates (e # es) = startedStates es"

section \<open>The public methods\<close>

definition pausePlayback :: "IterablePlayer \<Rightarrow> IterablePlayer" where
  "pausePlayback p =
     (if \<not> isPlaying p then p
      else (let p1 = (effect MetricsPause p)
                  \<lparr>lastTickMillis := None, isPlaying := False, untilTime := None,
                   lastRangeMillis := None\<rparr>
            in if state p1 = Play then setState Idle p1 else queueEmitState p1))"

text \<open>\<^verbatim>\<open>startPlayback()\<close> passes no option, \<^verbatim>\<open>playUntil(time)\<close> passes the time.\<close>

definition startPlayImpl :: "Time option \<Rightarrow> IterablePlayer \<Rightarrow> JsError + IterablePlayer" where
  "startPlayImpl opt p =
     (if isPlaying p \<or> untilTime p \<noteq> None \<or> start p = None \<or> end' p = None then Inr p
      else
        (case (case opt of
                 None \<Rightarrow> Inr p
               | Some t \<Rightarrow>
                   (if currentTime p \<noteq> None \<and> compare t (the (currentTime p)) \<le> 0
                    then Inl (Error ''Invariant: playUntil time must be after the current time'')
                    else Inr (p\<lparr>untilTime := Some (clampTime t (the (start p)) (the (end' p)))\<rparr>)))
         of
           Inl e \<Rightarrow> Inl e
         | Inr p1 \<Rightarrow>
             (let p2 = (effect (MetricsPlay (speed p1)) p1)\<lparr>isPlaying := True\<rparr>
              in if state p2 = Idle \<and> (nextState p2 = None \<or> nextState p2 = Some Idle)
                 then Inr (setState Play p2) else Inr (queueEmitState p2))))"

definition startPlayback :: "IterablePlayer \<Rightarrow> JsError + IterablePlayer" where
  "startPlayback p = startPlayImpl None p"

definition playUntil :: "Time \<Rightarrow> IterablePlayer \<Rightarrow> JsError + IterablePlayer" where
  "playUntil time p = startPlayImpl (Some time) p"

definition setPlaybackSpeed :: "real \<Rightarrow> IterablePlayer \<Rightarrow> IterablePlayer" where
  "setPlaybackSpeed s p =
     queueEmitState (effect (MetricsSetSpeed s) (p\<lparr>lastRangeMillis := None, speed := s\<rparr>))"

definition seekPlayback :: "Time \<Rightarrow> IterablePlayer \<Rightarrow> JsError + IterablePlayer" where
  "seekPlayback time p =
     (if state p = Preinit \<or> state p = Initialize then Inr (p\<lparr>seekTarget := Some time\<rparr>)
      else if start p = None \<or> end' p = None
      then Inl (Error ''invariant: initialized but no start/end set'')
      else
        (let targetTime = clampTime time (the (start p)) (the (end' p))
         in if seekTarget p \<noteq> None \<and> compare (the (seekTarget p)) targetTime = 0 then Inr p
            else if currentTime p \<noteq> None \<and> compare (the (currentTime p)) targetTime = 0 then Inr p
            else Inr (setState SeekBackfill
                   ((effect (MetricsSeek targetTime) p)
                      \<lparr>seekTarget := Some targetTime, untilTime := None, lastTickMillis := None,
                       lastRangeMillis := None\<rparr>))))"

text \<open>The two maps that \<^verbatim>\<open>setSubscriptions\<close> derives from the subscriptions.\<close>

definition allTopicsOf :: "SubscribePayload list \<Rightarrow> TopicSelection" where
  "allTopicsOf subs = newMap (map (\<lambda>subscription. (topic subscription, subscription)) subs)"

definition preloadTopicsOf :: "SubscribePayload list \<Rightarrow> TopicSelection" where
  "preloadTopicsOf subs =
     newMap (filterMap subs (\<lambda>sub. if preloadType sub = Present Full then Some (topic sub, sub) else None))"

definition setSubscriptions :: "SubscribePayload list \<Rightarrow> IterablePlayer \<Rightarrow> IterablePlayer" where
  "setSubscriptions newSubscriptions p =
     (let p1 = effect (MetricsSetSubscriptions newSubscriptions)
                 (p\<lparr>subscriptions := newSubscriptions\<rparr>);
          allTopics1 = allTopicsOf (subscriptions p1);
          preloadTopics1 = preloadTopicsOf (subscriptions p1)
      in if isEqualMap allTopics1 (allTopics p1) \<and> isEqualMap preloadTopics1 (preloadTopics p1)
         then p1
         else
           (let p2 = p1\<lparr>allTopics := allTopics1, allTopicsId := Suc (allTopicsId p1),
                        preloadTopics := preloadTopics1\<rparr>;
                p3 = (if blockLoader p2 then effect (BlockLoaderSetTopics (preloadTopics p2)) p2
                      else p2)
            in if state p3 = Idle \<or> state p3 = SeekBackfill \<or> state p3 = Play \<or> state p3 = StartPlay
               then (if \<not> isPlaying p3 \<and> currentTime p3 \<noteq> None
                     then setState SeekBackfill
                            (p3\<lparr>seekTarget := (case seekTarget p3 of None \<Rightarrow> currentTime p3
                                                | Some t \<Rightarrow> Some t),
                                untilTime := None, lastTickMillis := None,
                                lastRangeMillis := None\<rparr>)
                     else p3)
               else p3))"

text \<open>A sequence of calls of \<^verbatim>\<open>setSubscriptions\<close>, the first of the list first.\<close>

fun setSubscriptionsCalls :: "SubscribePayload list list \<Rightarrow> IterablePlayer \<Rightarrow> IterablePlayer" where
  "setSubscriptionsCalls [] p = p"
| "setSubscriptionsCalls (subs # calls) p = setSubscriptionsCalls calls (setSubscriptions subs p)"

text \<open>
  The unsupported operations. \<^verbatim>\<open>setParameter\<close> and \<^verbatim>\<open>publish\<close> throw. \<^verbatim>\<open>callService\<close>
  is declared \<^verbatim>\<open>async\<close>: its \<^verbatim>\<open>throw\<close> does not leave the call, the call returns a
  promise that is rejected with the error.
\<close>

datatype 'a Promise = Resolved 'a | Rejected JsError

definition setParameter :: "string \<Rightarrow> 'v \<Rightarrow> IterablePlayer \<Rightarrow> JsError + IterablePlayer" where
  "setParameter key v p = Inl (Error ''Parameter editing is not supported by this data source'')"

definition publish :: "'v \<Rightarrow> IterablePlayer \<Rightarrow> JsError + IterablePlayer" where
  "publish payload p = Inl (Error ''Publishing is not supported by this data source'')"

definition callService :: "IterablePlayer \<Rightarrow> JsError + (unit Promise \<times> IterablePlayer)" where
  "callService p = Inr (Rejected (Error ''Service calls are not supported by this data source''), p)"

definition close :: "IterablePlayer \<Rightarrow> IterablePlayer" where
  "close p = setState Close p"

section \<open>A tick of the play loop\<close>

text \<open>
  \<^verbatim>\<open>#tick\<close> is asynchronous too; it is modelled between two calls of the public
  methods, so \<^verbatim>\<open>#nextState\<close> is read where the source reads it and changes only
  through the tick itself. \<open>tickTime\<close> is the value of \<^verbatim>\<open>performance.now()\<close>. The timer
  that reports buffering after 500 ms is not modelled. A throw gives the error alone.
\<close>

datatype TickExit = NotPlaying | PendingTransition | Completed

text \<open>The range of the tick in milliseconds: lines 874 to 890.\<close>

definition tickRangeMillis :: "real \<Rightarrow> IterablePlayer \<Rightarrow> real" where
  "tickRangeMillis tickTime p =
     (let durationMillis =
            (if lastTickMillis p \<noteq> None \<and> the (lastTickMillis p) \<noteq> 0
             then tickTime - the (lastTickMillis p) else 20);
          rangeMillis = min (durationMillis * speed p) 300
      in if lastRangeMillis p \<noteq> None
         then the (lastRangeMillis p) * (9 / 10) + rangeMillis * (1 / 10) else rangeMillis)"

text \<open>
  The three places where a tick completes do the same: set the current time and the
  outgoing messages, queue an emit, and pause when the \<^verbatim>\<open>playUntil\<close> bound is reached.
\<close>

definition finishTick :: "Time \<Rightarrow> MessageEvent list \<Rightarrow> IterablePlayer \<Rightarrow> IterablePlayer" where
  "finishTick endT msgEvents p =
     (let p1 = queueEmitState (p\<lparr>currentTime := Some endT, messages := msgEvents\<rparr>)
      in if untilTime p1 \<noteq> None \<and> compare (the (currentTime p1)) (the (untilTime p1)) \<ge> 0
         then pausePlayback p1 else p1)"

text \<open>
  The \<^verbatim>\<open>for (;;)\<close> loop over the playback iterator. \<^verbatim>\<open>next()\<close> takes the first of the
  results that remain; with none left the iterator is done.
\<close>

fun readLoop :: "Time \<Rightarrow> IteratorResult list \<Rightarrow> MessageEvent list \<Rightarrow> IterablePlayer \<Rightarrow>
    MessageEvent list \<times> IterablePlayer" where
  "readLoop endT [] msgEvents p = (msgEvents, p\<lparr>playbackIterator := Some []\<rparr>)"
| "readLoop endT (ResultProblem connectionId problem # rest) msgEvents p =
     (let p1 = p\<lparr>playbackIterator := Some rest\<rparr>
      in if nextState p1 \<noteq> None then (msgEvents, p1)
         else readLoop endT rest msgEvents
                (p1\<lparr>problemManager :=
                      addProblem (''connid-'' @ showNat connectionId) problem (problemManager p1)\<rparr>))"
| "readLoop endT (ResultStamp stamp # rest) msgEvents p =
     (let p1 = p\<lparr>playbackIterator := Some rest\<rparr>
      in if nextState p1 \<noteq> None then (msgEvents, p1)
         else if compare stamp endT \<ge> 0 then (msgEvents, p1\<lparr>lastStamp := Some stamp\<rparr>)
         else readLoop endT rest msgEvents p1)"
| "readLoop endT (ResultMessageEvent msgEvent # rest) msgEvents p =
     (let p1 = p\<lparr>playbackIterator := Some rest\<rparr>
      in if nextState p1 \<noteq> None then (msgEvents, p1)
         else if compare (receiveTime msgEvent) endT > 0
         then (msgEvents, p1\<lparr>lastMessageEvent := Some msgEvent\<rparr>)
         else readLoop endT rest (msgEvents @ [msgEvent]) p1)"

text \<open>
  The first half of \<^verbatim>\<open>#tick\<close>, after the test of \<^verbatim>\<open>#isPlaying\<close>: lines 868 to 899. It
  gives the end of the window to read, \<^verbatim>\<open>end\<close> in the source, and the player with the
  two fields of the smoothing updated.
\<close>

definition tickWindow :: "real \<Rightarrow> IterablePlayer \<Rightarrow> JsError + (Time \<times> IterablePlayer)" where
  "tickWindow tickTime p =
     (if start p = None \<or> end' p = None
      then Inl (Error ''Invariant: start & end should be set before tick()'')
      else
        (let rangeMillis = tickRangeMillis tickTime p;
             p1 = p\<lparr>lastTickMillis := Some tickTime, lastRangeMillis := Some rangeMillis\<rparr>
         in if currentTime p1 = None
            then Inl (Error ''Invariant: Tried to play with no current time.'')
            else
              (case add (the (currentTime p1)) (fromMillis rangeMillis) of
                 Inl e \<Rightarrow> Inl e
               | Inr targetTime \<Rightarrow>
                   Inr (clampTime targetTime (the (start p1))
                          (case untilTime p1 of Some u \<Rightarrow> u | None \<Rightarrow> the (end' p1)),
                        p1))))"

text \<open>The second half: lines 907 to 1041.\<close>

definition tickRead :: "Time \<Rightarrow> IterablePlayer \<Rightarrow> JsError + (TickExit \<times> IterablePlayer)" where
  "tickRead endT p1 =
     (if lastStamp p1 \<noteq> None \<and> compare (the (lastStamp p1)) endT \<ge> 0
      then Inr (Completed, finishTick endT [] p1)
      else
        (let p2 = p1\<lparr>lastStamp := None\<rparr>
         in if lastMessageEvent p2 \<noteq> None
               \<and> compare (receiveTime (the (lastMessageEvent p2))) endT > 0
            then Inr (Completed, finishTick endT [] p2)
            else
              (let msgEvents = (case lastMessageEvent p2 of Some m \<Rightarrow> [m] | None \<Rightarrow> []);
                   p3 = p2\<lparr>lastMessageEvent := None\<rparr>
               in case playbackIterator p3 of
                    None \<Rightarrow> Inl (Error ''Invariant. this._playbackIterator is undefined.'')
                  | Some it \<Rightarrow>
                      (let (msgEvents1, p4) = readLoop endT it msgEvents p3;
                           p5 = p4\<lparr>presence := PRESENT\<rparr>
                       in if nextState p5 \<noteq> None then Inr (PendingTransition, p5)
                          else Inr (Completed, finishTick endT msgEvents1 p5)))))"

definition tick :: "real \<Rightarrow> IterablePlayer \<Rightarrow> JsError + (TickExit \<times> IterablePlayer)" where
  "tick tickTime p =
     (if \<not> isPlaying p then Inr (NotPlaying, p)
      else (case tickWindow tickTime p of
              Inl e \<Rightarrow> Inl e
            | Inr (endT, p1) \<Rightarrow> tickRead endT p1))"

text \<open>
  The message events a player has still to deliver: the one kept from the last tick,
  then those the playback iterator has still to yield.
\<close>

fun messageEvents :: "IteratorResult list \<Rightarrow> MessageEvent list" where
  "messageEvents [] = []"
| "messageEvents (ResultMessageEvent m # rs) = m # messageEvents rs"
| "messageEvents (r # rs) = messageEvents rs"

definition pendingMessageEvents :: "IterablePlayer \<Rightarrow> MessageEvent list" where
  "pendingMessageEvents p =
     (case lastMessageEvent p of Some m \<Rightarrow> [m] | None \<Rightarrow> [])
     @ (case playbackIterator p of Some it \<Rightarrow> messageEvents it | None \<Rightarrow> [])"

text \<open>
  What the player expects of its iterator: the message events come in the order of
  their receive times, and after a stamp come only message events that are later than
  the stamp.
\<close>

fun iteratorOrdered :: "IteratorResult list \<Rightarrow> bool" where
  "iteratorOrdered [] = True"
| "iteratorOrdered (ResultMessageEvent m # rs) =
     (list_all (\<lambda>m'. compare (receiveTime m) (receiveTime m') \<le> 0) (messageEvents rs)
      \<and> iteratorOrdered rs)"
| "iteratorOrdered (ResultStamp s # rs) =
     (list_all (\<lambda>m'. compare s (receiveTime m') < 0) (messageEvents rs) \<and> iteratorOrdered rs)"
| "iteratorOrdered (ResultProblem c pr # rs) = iteratorOrdered rs"

definition pendingResults :: "IterablePlayer \<Rightarrow> IteratorResult list" where
  "pendingResults p =
     (case lastStamp p of Some s \<Rightarrow> [ResultStamp s] | None \<Rightarrow> [])
     @ (case lastMessageEvent p of Some m \<Rightarrow> [ResultMessageEvent m] | None \<Rightarrow> [])
     @ (case playbackIterator p of Some it \<Rightarrow> it | None \<Rightarrow> [])"

section \<open>The play state\<close>

text \<open>
  \<^verbatim>\<open>#resetPlaybackIterator\<close>, lines 593 to 614: it ends the iterator it has and opens
  one on the buffered source for the topics of \<^verbatim>\<open>#allTopics\<close>, from 1 ns after the
  current time. The buffered source is not part of the sources read here: its
  \<^verbatim>\<open>messageIterator\<close> is the parameter, the results it yields for a topic selection and
  a start time. Its \<^verbatim>\<open>stopProducer\<close> is not modelled.
\<close>

definition resetPlaybackIterator ::
  "(TopicSelection \<Rightarrow> Time \<Rightarrow> IteratorResult list) \<Rightarrow> IterablePlayer \<Rightarrow> JsError + IterablePlayer" where
  "resetPlaybackIterator messageIterator p =
     (if currentTime p = None
      then Inl (Error ''Invariant: Tried to reset playback iterator with no current time.'')
      else
        (case add (the (currentTime p)) \<lparr>sec = 0, nsec = 1\<rparr> of
           Inl e \<Rightarrow> Inl e
         | Inr next \<Rightarrow>
             (let p1 = (if playbackIterator p \<noteq> None then effect IteratorReturn p else p)
              in Inr (p1\<lparr>playbackIterator := Some (messageIterator (allTopics p1) next)\<rparr>))))"

text \<open>
  \<^verbatim>\<open>#statePlay\<close>, lines 1085 to 1163. Before its loop it sets the presence, checks
  the current time, start and end, and keeps in the local \<^verbatim>\<open>allTopics\<close> the map that
  \<^verbatim>\<open>#allTopics\<close> holds then: \<open>statePlayEnter\<close> gives the identity of that map.
\<close>

definition statePlayEnter :: "IterablePlayer \<Rightarrow> JsError + (nat \<times> IterablePlayer)" where
  "statePlayEnter p =
     (let p1 = p\<lparr>presence := PRESENT\<rparr>
      in if currentTime p1 = None
         then Inl (Error ''Invariant: currentTime not set before statePlay'')
         else if start p1 = None \<or> end' p1 = None
         then Inl (Error ''Invariant: start & end should be set before statePlay'')
         else Inr (allTopicsId p1, p1))"

text \<open>
  One turn of the \<^verbatim>\<open>while\<close> loop, given the identity \<open>allTopicsRef\<close> kept at the entry
  and the clock of the tick. The turn ends the handler (\<open>Return\<close>) when the loop
  condition fails, when the playback has reached the end, when a state is requested
  during the tick, or when \<^verbatim>\<open>#allTopics\<close> is no longer the map kept at the entry: then
  it requests \<^verbatim>\<open>reset-playback-iterator\<close>. Otherwise the loop goes on (\<open>Continue\<close>)
  after the delay that caps the rate. A throw of the tick gives the error alone; the
  \<^verbatim>\<open>catch\<close> of the handler records it. The progress is not modelled.
\<close>

datatype PlayTurn = Continue | Return

definition statePlayTurn ::
  "nat \<Rightarrow> real \<Rightarrow> IterablePlayer \<Rightarrow> JsError + (PlayTurn \<times> IterablePlayer)" where
  "statePlayTurn allTopicsRef tickTime p =
     (if \<not> (isPlaying p \<and> \<not> hasError p \<and> nextState p = None) then Inr (Return, p)
      else if compare (the (currentTime p)) (the (end' p)) \<ge> 0
      then Inr (Return,
                setState Idle
                  (p\<lparr>lastTickMillis := None, lastRangeMillis := None, lastStamp := None\<rparr>))
      else
        (case tick tickTime p of
           Inl e \<Rightarrow> Inl e
         | Inr (ex, p1) \<Rightarrow>
             (if nextState p1 \<noteq> None then Inr (Return, p1)
              else if allTopicsId p1 \<noteq> allTopicsRef
              then Inr (Return, setState ResetPlaybackIterator (p1\<lparr>lastMessageEvent := None\<rparr>))
              else Inr (Continue, p1))))"

text \<open>
  The loop, for the clocks of its ticks one after the other. It is cut when the clocks
  are used up: the result \<open>Continue\<close> says that the loop is still running then.
\<close>

fun statePlayLoop ::
  "nat \<Rightarrow> real list \<Rightarrow> IterablePlayer \<Rightarrow> JsError + (PlayTurn \<times> IterablePlayer)" where
  "statePlayLoop allTopicsRef [] p = Inr (Continue, p)"
| "statePlayLoop allTopicsRef (tickTime # clock) p =
     (case statePlayTurn allTopicsRef tickTime p of
        Inl e \<Rightarrow> Inl e
      | Inr (Return, p1) \<Rightarrow> Inr (Return, p1)
      | Inr (Continue, p1) \<Rightarrow> statePlayLoop allTopicsRef clock p1)"

section \<open>Initialisation\<close>

text \<open>
  What \<^verbatim>\<open>#stateInitialize\<close> does with the result of the source's \<^verbatim>\<open>initialize()\<close>, up
  to the registration of the problems (lines 489 to 542, and the \<^verbatim>\<open>catch\<close>). The
  set-up of the block loader and the delayed request of \<^verbatim>\<open>start-play\<close> that follow
  are not modelled, nor are the profile, the name, the datatypes and the statistics,
  which are stored as they come.
\<close>

record Initialization =
  initStart :: Time
  initEnd :: Time
  initTopics :: "Topic list"
  initProblems :: "PlayerProblem list"

definition showSchemaName :: "string option \<Rightarrow> string" where
  "showSchemaName s = (case s of None \<Rightarrow> ''undefined'' | Some n \<Rightarrow> n)"

definition inconsistentDatatype :: "Topic \<Rightarrow> Topic \<Rightarrow> PlayerProblem" where
  "inconsistentDatatype existingTopic t =
     \<lparr>severity = SevWarn,
      message = ''Inconsistent datatype for topic: '' @ name t,
      tip = Some (''Topic '' @ name t @ '' has messages with multiple datatypes: ''
                  @ showSchemaName (schemaName existingTopic) @ '', ''
                  @ showSchemaName (schemaName t)
                  @ ''. This may result in errors during visualization.''),
      error = None\<rparr>"

fun uniqueTopicsLoop :: "Topic list \<Rightarrow> (string \<times> Topic) list \<Rightarrow> PlayerProblem list \<Rightarrow>
    (string \<times> Topic) list \<times> PlayerProblem list" where
  "uniqueTopicsLoop [] uniqueTopics probs = (uniqueTopics, probs)"
| "uniqueTopicsLoop (t # ts) uniqueTopics probs =
     (case map_of uniqueTopics (name t) of
        Some existingTopic \<Rightarrow>
          uniqueTopicsLoop ts uniqueTopics (probs @ [inconsistentDatatype existingTopic t])
      | None \<Rightarrow> uniqueTopicsLoop ts (AList.update (name t) t uniqueTopics) probs)"

fun addInitProblems :: "PlayerProblem list \<Rightarrow> nat \<Rightarrow> PlayerProblemManager \<Rightarrow> PlayerProblemManager" where
  "addInitProblems [] idx m = m"
| "addInitProblems (problem # rest) idx m =
     addInitProblems rest (idx + 1) (addProblem (''init-problem-'' @ showNat idx) problem m)"

definition stateInitialize :: "JsError + Initialization \<Rightarrow> IterablePlayer \<Rightarrow> IterablePlayer" where
  "stateInitialize initResult p =
     (let p0 = queueEmitState p
      in queueEmitState
        (case initResult of
           Inl (Error msg) \<Rightarrow> setError (''Error initializing: '' @ msg) p0
         | Inr ini \<Rightarrow>
             (let p1 = (case seekTarget p0 of
                          Some t \<Rightarrow> p0\<lparr>seekTarget := Some (clampTime t (initStart ini) (initEnd ini))\<rparr>
                        | None \<Rightarrow> p0);
                  p2 = p1\<lparr>start := Some (initStart ini),
                          currentTime := (case seekTarget p1 of Some t \<Rightarrow> Some t
                                          | None \<Rightarrow> Some (initStart ini)),
                          end' := Some (initEnd ini)\<rparr>;
                  (uniqueTopics, probs) = uniqueTopicsLoop (initTopics ini) [] (initProblems ini)
              in p2\<lparr>providerTopics := map snd uniqueTopics,
                    problemManager := addInitProblems probs 0 (problemManager p2)\<rparr>)))"

section \<open>Example states\<close>

text \<open>
  A player that has been initialised on a source from 0 s to 10 s and sits in the idle
  state at the time \<open>c\<close>: the run loop is suspended in \<^verbatim>\<open>#stateIdle\<close>, which has
  registered its abort controller.
\<close>

definition idleAt :: "Time \<Rightarrow> IterablePlayer" where
  "idleAt c =
     newIterablePlayer\<lparr>state := Idle, runningState := True,
       start := Some \<lparr>sec = 0, nsec = 0\<rparr>, end' := Some \<lparr>sec = 10, nsec = 0\<rparr>,
       currentTime := Some c, presence := PRESENT, abort := True\<rparr>"

definition exampleWarning :: PlayerProblem where
  "exampleWarning = \<lparr>severity = SevWarn, message = ''slow'', tip = None, error = None\<rparr>"

definition subA :: SubscribePayload where
  "subA = \<lparr>topic = ''/a'', preloadType = Present Full, fields' = Missing\<rparr>"

definition subB :: SubscribePayload where
  "subB = \<lparr>topic = ''/b'', preloadType = Missing, fields' = Missing\<rparr>"

text \<open>The subscription \<open>subB\<close> with its property \<^verbatim>\<open>preloadType\<close> set to \<^verbatim>\<open>undefined\<close>.\<close>

definition subBUndefined :: SubscribePayload where
  "subBUndefined = \<lparr>topic = ''/b'', preloadType = Undefined, fields' = Missing\<rparr>"

text \<open>
  A recording with a message of \<^verbatim>\<open>/a\<close> at 4 s, one of \<^verbatim>\<open>/b\<close> at 4.01 s and one of
  \<^verbatim>\<open>/a\<close> at 4.02 s, and a source that iterates over it: the messages of the selected
  topics from the start time on, in the order of the recording.
\<close>

definition topicMessage :: "string \<Rightarrow> Time \<Rightarrow> MessageEvent" where
  "topicMessage t r = \<lparr>eventTopic = t, receiveTime = r, eventMessage = ''m'', sizeInBytes = 1\<rparr>"

definition exampleRecording :: "MessageEvent list" where
  "exampleRecording =
     [topicMessage ''/a'' \<lparr>sec = 4, nsec = 0\<rparr>, topicMessage ''/b'' \<lparr>sec = 4, nsec = 10000000\<rparr>,
      topicMessage ''/a'' \<lparr>sec = 4, nsec = 20000000\<rparr>]"

definition exampleIterator :: "TopicSelection \<Rightarrow> Time \<Rightarrow> IteratorResult list" where
  "exampleIterator topics startTime =
     map ResultMessageEvent
       (filter (\<lambda>m. eventTopic m \<in> fst ` set topics \<and> compare startTime (receiveTime m) \<le> 0)
          exampleRecording)"

text \<open>
  A player idle at 3.99 s that is subscribed to \<^verbatim>\<open>/a\<close>, with the playback iterator
  that \<^verbatim>\<open>#resetPlaybackIterator\<close> has opened on that source.
\<close>

definition subscribedIdle :: IterablePlayer where
  "subscribedIdle =
     projr (resetPlaybackIterator exampleIterator
       ((idleAt \<lparr>sec = 3, nsec = 990000000\<rparr>)
          \<lparr>subscriptions := [subA], allTopics := allTopicsOf [subA], allTopicsId := 1,
           preloadTopics := preloadTopicsOf [subA]\<rparr>))"

text \<open>
  What follows the two calls \<^verbatim>\<open>startPlayback()\<close> and
  \<^verbatim>\<open>setSubscriptions([subA, subB])\<close> made in one turn on that player: the abort of the
  first call lets the idle handler return, and the run loop starts the play state.
\<close>

definition playThenSubscribe :: IterablePlayer where
  "playThenSubscribe =
     runEvent HandlerReturns
       (setSubscriptions [subA, subB] (projr (startPlayback subscribedIdle)))"

subsection \<open>The spec's words for the topics of the source\<close>

text \<open>
  The spec says that initialisation dedups the topics by name, keeps the first-seen
  definition and drops the later topic. \<open>keepFirstSeen seen ts\<close> is the list of the
  topics of \<open>ts\<close> whose name is neither in \<open>seen\<close> nor the name of an earlier topic of
  \<open>ts\<close>; \<open>laterDuplicates seen ts\<close> is the list of the others, the topics dropped.
  Both are compared with \<open>uniqueTopicsLoop\<close>, which is the code.
\<close>

fun keepFirstSeen :: "string set \<Rightarrow> Topic list \<Rightarrow> Topic list" where
  "keepFirstSeen seen [] = []"
| "keepFirstSeen seen (t # ts) =
     (if name t \<in> seen then keepFirstSeen seen ts else t # keepFirstSeen (insert (name t) seen) ts)"

fun laterDuplicates :: "string set \<Rightarrow> Topic list \<Rightarrow> Topic list" where
  "laterDuplicates seen [] = []"
| "laterDuplicates seen (t # ts) =
     (if name t \<in> seen then t # laterDuplicates seen ts
      else laterDuplicates (insert (name t) seen) ts)"

definition exampleTopics :: "Topic list" where
  "exampleTopics =
     [\<lparr>name = ''/a'', schemaName = Some ''X''\<rparr>, \<lparr>name = ''/b'', schemaName = Some ''X''\<rparr>,
      \<lparr>name = ''/a'', schemaName = Some ''Y''\<rparr>]"

definition exampleInitialization :: Initialization where
  "exampleInitialization =
     \<lparr>initStart = \<lparr>sec = 0, nsec = 0\<rparr>, initEnd = \<lparr>sec = 10, nsec = 0\<rparr>,
      initTopics = exampleTopics, initProblems = [exampleWarning]\<rparr>"

text \<open>
  The contract between a player at the time \<open>c\<close> and its iterator: what is still to
  come is ordered, and every message event still to come is later than \<open>c\<close> (the
  iterator was opened at \<open>c\<close> + 1 ns, or has been read up to \<open>c\<close>).
\<close>

definition iteratorContract :: "Time \<Rightarrow> IterablePlayer \<Rightarrow> bool" where
  "iteratorContract c p =
     (iteratorOrdered (pendingResults p)
      \<and> list_all (\<lambda>m. compare c (receiveTime m) < 0) (pendingMessageEvents p))"

text \<open>A player in the play state at the time \<open>c\<close>, with the results \<open>it\<close> to come.\<close>

definition playingAt :: "Time \<Rightarrow> IteratorResult list \<Rightarrow> IterablePlayer" where
  "playingAt c it =
     (idleAt c)\<lparr>state := Play, isPlaying := True, abort := False, playbackIterator := Some it\<rparr>"

definition messageAt :: "int \<Rightarrow> MessageEvent" where
  "messageAt s =
     \<lparr>eventTopic = ''/a'', receiveTime = \<lparr>sec = s, nsec = 0\<rparr>, eventMessage = ''m'', sizeInBytes = 1\<rparr>"

text \<open>
  A playing player whose speed has been set to 0 (\<^verbatim>\<open>setPlaybackSpeed\<close> takes any number),
  and one in the middle of a recording: 300 ms after its last tick, at 2.9 s, with a
  message at 3 s, a stamp at 3.5 s and a message at 4 s to come.
\<close>

definition stalledPlayer :: IterablePlayer where
  "stalledPlayer = (playingAt \<lparr>sec = 3, nsec = 0\<rparr> [ResultMessageEvent (messageAt 4)])\<lparr>speed := 0\<rparr>"

definition midPlayer :: IterablePlayer where
  "midPlayer =
     (playingAt \<lparr>sec = 2, nsec = 900000000\<rparr>
        [ResultMessageEvent (messageAt 3), ResultStamp \<lparr>sec = 3, nsec = 500000000\<rparr>,
         ResultMessageEvent (messageAt 4)])\<lparr>lastTickMillis := Some 1000\<rparr>"

text \<open>
  A player at 2.7 s, 300 ms after its last tick, whose iterator yields a stamp at 3 s and
  then a message at 3 s.
\<close>

definition stampedPlayer :: IterablePlayer where
  "stampedPlayer =
     (playingAt \<lparr>sec = 2, nsec = 700000000\<rparr>
        [ResultStamp \<lparr>sec = 3, nsec = 0\<rparr>, ResultMessageEvent (messageAt 3)])
       \<lparr>lastTickMillis := Some 1000\<rparr>"

section \<open>Properties of the problem manager\<close>

lemma removeLoop_unchanged:
  "removeLoop predicate es (changed, al) = (False, al') \<Longrightarrow> al' = al \<and> \<not> changed"
proof (induction es arbitrary: changed al)
  case Nil
  then show ?case by simp
next
  case (Cons e es)
  obtain pid problem where e: "e = (pid, problem)" by (cases e)
  show ?case
  proof (cases "predicate pid problem")
    case False
    with Cons.prems e have "removeLoop predicate es (changed, al) = (False, al')" by simp
    from Cons.IH [OF this] show ?thesis .
  next
    case True
    obtain deleted al1 where d: "mapDelete pid al = (deleted, al1)" by (cases "mapDelete pid al")
    with Cons.prems e True
    have r: "removeLoop predicate es (if deleted then True else changed, al1) = (False, al')"
      by simp
    from Cons.IH [OF r] have a: "al' = al1" and b: "\<not> (if deleted then True else changed)"
      by simp_all
    from b have nd: "\<not> deleted" and nc: "\<not> changed" by (auto split: if_splits)
    from d nd have "map_of al pid = None" and "al1 = AList.delete pid al"
      by (auto simp: mapDelete_def)
    then have "al1 = al"
      by (simp add: delete_notin_dom map_of_eq_None_iff)
    with a nc show ?thesis by simp
  qed
qed

lemma cacheValid_call: "cacheValid m \<Longrightarrow> cacheValid (snd (callManager c m))"
proof (cases c)
  case CallProblems
  assume "cacheValid m"
  with CallProblems show ?thesis
    by (auto simp: cacheValid_def problems_def Let_def split: option.splits)
next
  case (CallAddProblem pid problem)
  then show ?thesis by (simp add: cacheValid_def addProblem_def)
next
  case (CallHasProblem pid)
  assume "cacheValid m"
  with CallHasProblem show ?thesis by simp
next
  case (CallRemoveProblem pid)
  assume "cacheValid m"
  with CallRemoveProblem show ?thesis
    by (auto simp: cacheValid_def removeProblem_def mapDelete_def Let_def
        delete_notin_dom map_of_eq_None_iff split: option.splits)
next
  case (CallRemoveProblems predicate)
  assume v: "cacheValid m"
  obtain changed al where r: "removeLoop predicate (problemsById m) (False, problemsById m) = (changed, al)"
    by (cases "removeLoop predicate (problemsById m) (False, problemsById m)")
  show ?thesis
  proof (cases changed)
    case True
    with r CallRemoveProblems show ?thesis
      by (simp add: cacheValid_def removeProblems_def)
  next
    case False
    with r have "removeLoop predicate (problemsById m) (False, problemsById m) = (False, al)"
      by simp
    from removeLoop_unchanged [OF this] have "al = problemsById m" by simp
    with r False v CallRemoveProblems show ?thesis
      by (simp add: cacheValid_def removeProblems_def)
  qed
next
  case CallClear
  then show ?thesis by (simp add: cacheValid_def clear_def)
qed

lemma cacheValid_calls: "cacheValid m \<Longrightarrow> cacheValid (callsManager cs m)"
  by (induction cs arbitrary: m) (simp_all add: cacheValid_call)

lemma cacheValid_new: "cacheValid newPlayerProblemManager"
  by (simp add: cacheValid_def newPlayerProblemManager_def)

lemma removesNothing_keeps:
  assumes "removesNothing c m" and "problemsCache m = Some a"
  shows "problemsCache (snd (callManager c m)) = Some a
    \<and> problemsById (snd (callManager c m)) = problemsById m"
proof (cases c)
  case CallProblems
  with assms show ?thesis by (simp add: problems_def)
next
  case (CallHasProblem pid)
  with assms show ?thesis by simp
next
  case (CallRemoveProblem pid)
  with assms show ?thesis
    by (auto simp: removeProblem_def mapDelete_def Let_def delete_notin_dom map_of_eq_None_iff
        split: if_splits)
next
  case (CallRemoveProblems predicate)
  obtain changed al where r: "removeLoop predicate (problemsById m) (False, problemsById m) = (changed, al)"
    by (cases "removeLoop predicate (problemsById m) (False, problemsById m)")
  with assms CallRemoveProblems have f: "\<not> changed"
    by (auto simp: removeProblems_def split: if_splits)
  with r have "removeLoop predicate (problemsById m) (False, problemsById m) = (False, al)"
    by simp
  from removeLoop_unchanged [OF this] have "al = problemsById m" by simp
  with r f assms CallRemoveProblems show ?thesis
    by (simp add: removeProblems_def)
next
  case (CallAddProblem pid problem)
  with assms show ?thesis by simp
next
  case CallClear
  with assms show ?thesis by simp
qed

lemma allRemoveNothing_keeps:
  "allRemoveNothing cs m \<Longrightarrow> problemsCache m = Some a \<Longrightarrow>
   problemsCache (callsManager cs m) = Some a \<and> problemsById (callsManager cs m) = problemsById m"
proof (induction cs arbitrary: m)
  case Nil
  then show ?case by simp
next
  case (Cons c cs)
  from Cons.prems have c: "removesNothing c m" and cs: "allRemoveNothing cs (snd (callManager c m))"
    by simp_all
  from removesNothing_keeps [OF c Cons.prems(2)]
  have k: "problemsCache (snd (callManager c m)) = Some a"
    and b: "problemsById (snd (callManager c m)) = problemsById m" by simp_all
  from Cons.IH [OF cs k] b show ?case by simp
qed

lemma problems_caches: "problems m = (a, m1) \<Longrightarrow> problemsCache m1 = Some a"
  by (auto simp: problems_def Let_def split: option.splits)

lemma problems_byId: "problems m = (a, m1) \<Longrightarrow> problemsById m1 = problemsById m"
  by (auto simp: problems_def Let_def split: option.splits)

text \<open>
  C8. Take a manager reached from a new one by any calls. When \<^verbatim>\<open>problems()\<close> returns
  an array, and the calls that follow neither add a problem, nor clear, nor remove
  anything, the next \<^verbatim>\<open>problems()\<close> returns the identical array object (same identity,
  same elements), and its elements are exactly the registered problems, in the order of
  the map.
\<close>

theorem problems_same_array:
  assumes "m = callsManager history newPlayerProblemManager"
    and "problems m = (a, m1)"
    and "allRemoveNothing between m1"
  shows "fst (problems (callsManager between m1)) = a
    \<and> elems a = map snd (problemsById (callsManager between m1))
    \<and> problemsById (callsManager between m1) = problemsById m"
proof -
  have v: "cacheValid m"
    using assms(1) cacheValid_calls cacheValid_new by simp
  have "m1 = snd (callManager CallProblems m)"
    using assms(2) by simp
  with v cacheValid_call have v1: "cacheValid m1" by metis
  have c1: "problemsCache m1 = Some a"
    using assms(2) by (rule problems_caches)
  from allRemoveNothing_keeps [OF assms(3) c1]
  have k: "problemsCache (callsManager between m1) = Some a"
    and b: "problemsById (callsManager between m1) = problemsById m1" by simp_all
  from v1 c1 have "elems a = map snd (problemsById m1)"
    by (simp add: cacheValid_def)
  with k b problems_byId [OF assms(2)] show ?thesis
    by (simp add: problems_def)
qed

theorem problems_same_array_witness:
  "allRemoveNothing [CallHasProblem ''a'', CallRemoveProblem ''b'', CallProblems]
     (snd (problems (callsManager [CallAddProblem ''a'' exampleWarning] newPlayerProblemManager)))
   \<and> fst (problems (callsManager [CallHasProblem ''a'', CallRemoveProblem ''b'', CallProblems]
       (snd (problems (callsManager [CallAddProblem ''a'' exampleWarning] newPlayerProblemManager)))))
     = \<lparr>ident = 0, elems = [exampleWarning]\<rparr>"
proof -
  let ?m = "callsManager [CallAddProblem ''a'' exampleWarning] newPlayerProblemManager"
  let ?a = "\<lparr>ident = 0, elems = [exampleWarning]\<rparr>"
  let ?between = "[CallHasProblem ''a'', CallRemoveProblem ''b'', CallProblems]"
  have p: "problems ?m = (?a, snd (problems ?m))"
    by (simp add: problems_def addProblem_def newPlayerProblemManager_def Let_def)
  have q: "allRemoveNothing ?between (snd (problems ?m))"
    by (simp add: problems_def addProblem_def newPlayerProblemManager_def removeProblem_def
        mapDelete_def Let_def)
  from problems_same_array [OF refl p q] q show ?thesis by simp
qed

section \<open>Properties of the public methods\<close>

lemma compare_0_iff: "compare a b = 0 \<longleftrightarrow> a = b"
  by (auto simp: compare_def Let_def)

text \<open>
  C7. \<^verbatim>\<open>pausePlayback()\<close> on a player that is not playing returns the player as it is:
  no pause event goes to the metrics collector, no state is requested, no emit is
  queued (the three would show in \<open>effects\<close>, \<open>nextState\<close> and \<open>state\<close>), and no
  other field changes.
\<close>

theorem pausePlayback_not_playing: "\<not> isPlaying p \<Longrightarrow> pausePlayback p = p"
  by (simp add: pausePlayback_def)

theorem pausePlayback_not_playing_witness:
  "\<not> isPlaying (idleAt \<lparr>sec = 3, nsec = 0\<rparr>)
   \<and> pausePlayback (idleAt \<lparr>sec = 3, nsec = 0\<rparr>) = idleAt \<lparr>sec = 3, nsec = 0\<rparr>"
  using pausePlayback_not_playing [of "idleAt \<lparr>sec = 3, nsec = 0\<rparr>"]
  by (simp add: idleAt_def newIterablePlayer_def)

text \<open>
  C3. On an initialised player (the state is past \<^verbatim>\<open>initialize\<close>, start and end are
  set), \<^verbatim>\<open>seekPlayback(t)\<close> returns the player as it is when \<open>t\<close>, clamped to the range
  of the source, is exactly the current time or exactly the seek target that is
  pending: no seek goes to the metrics collector, no state is requested, no field
  changes. (\<open>compare_0_iff\<close>: \<^verbatim>\<open>compare\<close> gives 0 for equal times only.)
\<close>

theorem seekPlayback_same_time:
  assumes "state p \<noteq> Preinit" and "state p \<noteq> Initialize"
    and "start p = Some s" and "end' p = Some e"
    and "currentTime p = Some (clampTime t s e) \<or> seekTarget p = Some (clampTime t s e)"
  shows "seekPlayback t p = Inr p"
  using assms by (auto simp: seekPlayback_def compare_0_iff Let_def)

theorem seekPlayback_same_time_witness:
  "seekPlayback \<lparr>sec = 12, nsec = 0\<rparr> (idleAt \<lparr>sec = 10, nsec = 0\<rparr>)
     = Inr (idleAt \<lparr>sec = 10, nsec = 0\<rparr>)"
  using seekPlayback_same_time [of "idleAt \<lparr>sec = 10, nsec = 0\<rparr>"
      "\<lparr>sec = 0, nsec = 0\<rparr>" "\<lparr>sec = 10, nsec = 0\<rparr>" "\<lparr>sec = 12, nsec = 0\<rparr>"]
  by (simp add: idleAt_def newIterablePlayer_def clampTime_def compare_def)

text \<open>
  C10. \<^verbatim>\<open>startPlayback()\<close> and \<^verbatim>\<open>playUntil(t)\<close> return the player as it is (no play
  event to the metrics collector, no field changed) when it is playing already, or an
  until-time is pending, or start or end is not set. Past this guard, \<^verbatim>\<open>playUntil(t)\<close>
  with \<open>t\<close> not after the current time throws
  \<^verbatim>\<open>Invariant: playUntil time must be after the current time\<close>.
\<close>

theorem startPlayImpl_guard_and_throw:
  "(isPlaying p \<or> untilTime p \<noteq> None \<or> start p = None \<or> end' p = None
      \<longrightarrow> startPlayback p = Inr p \<and> playUntil t p = Inr p)
   \<and> (\<not> isPlaying p \<and> untilTime p = None \<and> start p \<noteq> None \<and> end' p \<noteq> None
       \<and> currentTime p = Some c \<and> compare t c \<le> 0
      \<longrightarrow> playUntil t p = Inl (Error ''Invariant: playUntil time must be after the current time''))"
  by (auto simp: startPlayback_def playUntil_def startPlayImpl_def)

theorem startPlayImpl_guard_and_throw_witness:
  "startPlayback newIterablePlayer = Inr newIterablePlayer
   \<and> playUntil \<lparr>sec = 5, nsec = 0\<rparr> ((idleAt \<lparr>sec = 3, nsec = 0\<rparr>)\<lparr>isPlaying := True\<rparr>)
       = Inr ((idleAt \<lparr>sec = 3, nsec = 0\<rparr>)\<lparr>isPlaying := True\<rparr>)
   \<and> playUntil \<lparr>sec = 3, nsec = 0\<rparr> (idleAt \<lparr>sec = 3, nsec = 0\<rparr>)
       = Inl (Error ''Invariant: playUntil time must be after the current time'')"
  using startPlayImpl_guard_and_throw [of newIterablePlayer]
    startPlayImpl_guard_and_throw [of "(idleAt \<lparr>sec = 3, nsec = 0\<rparr>)\<lparr>isPlaying := True\<rparr>"
      "\<lparr>sec = 5, nsec = 0\<rparr>"]
    startPlayImpl_guard_and_throw [of "idleAt \<lparr>sec = 3, nsec = 0\<rparr>"
      "\<lparr>sec = 3, nsec = 0\<rparr>" "\<lparr>sec = 3, nsec = 0\<rparr>"]
  by (simp add: idleAt_def newIterablePlayer_def compare_def)

text \<open>
  C9, as the code has it. In every state of the player \<^verbatim>\<open>setParameter\<close> and
  \<^verbatim>\<open>publish\<close> throw an error that names the operation; \<^verbatim>\<open>callService\<close> does not
  throw: it returns a promise rejected with such an error, and changes nothing.
\<close>

theorem unsupported_operations:
  "setParameter k v p = Inl (Error ''Parameter editing is not supported by this data source'')
   \<and> publish payload p = Inl (Error ''Publishing is not supported by this data source'')
   \<and> callService p
       = Inr (Rejected (Error ''Service calls are not supported by this data source''), p)"
  by (simp add: setParameter_def publish_def callService_def)

text \<open>C9 as stated fails for \<^verbatim>\<open>callService\<close>: the call on a new player returns.\<close>

theorem callService_does_not_throw: "\<not> isl (callService newIterablePlayer)"
  by (simp add: callService_def)

section \<open>Properties of the subscriptions\<close>

lemma startNextState_topics:
  "allTopics (startNextState p) = allTopics p \<and> preloadTopics (startNextState p) = preloadTopics p
   \<and> subscriptions (startNextState p) = subscriptions p"
  by (simp add: startNextState_def effect_def queueEmitState_def Let_def split: option.splits)

lemma setState_topics:
  "allTopics (setState s p) = allTopics p \<and> preloadTopics (setState s p) = preloadTopics p
   \<and> subscriptions (setState s p) = subscriptions p"
  by (simp add: setState_def runState_def startNextState_topics effect_def Let_def)

lemma isEqualMap_refl: "isEqualMap m m"
  by (simp add: isEqualMap_def)

lemma setSubscriptions_topics:
  "isEqualMap (allTopicsOf subs) (allTopics (setSubscriptions subs p))
   \<and> isEqualMap (preloadTopicsOf subs) (preloadTopics (setSubscriptions subs p))
   \<and> subscriptions (setSubscriptions subs p) = subs"
  by (simp add: setSubscriptions_def Let_def setState_topics effect_def isEqualMap_refl)

lemma setSubscriptionsCalls_last:
  "calls \<noteq> [] \<Longrightarrow>
   isEqualMap (allTopicsOf (last calls)) (allTopics (setSubscriptionsCalls calls p))
   \<and> isEqualMap (preloadTopicsOf (last calls)) (preloadTopics (setSubscriptionsCalls calls p))
   \<and> subscriptions (setSubscriptionsCalls calls p) = last calls"
proof (induction calls arbitrary: p)
  case Nil
  then show ?case by simp
next
  case (Cons subs calls)
  show ?case
  proof (cases "calls = []")
    case True
    then show ?thesis using setSubscriptions_topics [of subs p] by simp
  next
    case False
    with Cons.IH [of "setSubscriptions subs p"] show ?thesis by simp
  qed
qed

lemma keys_foldl_update:
  "fst ` set (foldl (\<lambda>m (k, v). AList.update k v m) al entries) = fst ` set al \<union> fst ` set entries"
proof (induction entries arbitrary: al)
  case Nil
  then show ?case by simp
next
  case (Cons e entries)
  obtain k v where e: "e = (k, v)" by (cases e)
  have "fst ` set (foldl (\<lambda>m (k, v). AList.update k v m) (AList.update k v al) entries)
      = fst ` set (AList.update k v al) \<union> fst ` set entries"
    by (rule Cons.IH)
  also have "\<dots> = fst ` set al \<union> fst ` set (e # entries)"
    by (simp add: dom_update e)
  finally show ?case by (simp add: e)
qed

lemma keys_allTopicsOf: "fst ` set (allTopicsOf subs) = topic ` set subs"
  by (simp add: allTopicsOf_def newMap_def keys_foldl_update image_image)

text \<open>
  The part of \<^verbatim>\<open>setSubscriptions\<close> that holds in every state. After any calls,
  \<^verbatim>\<open>#allTopics\<close> holds the entries derived from the subscriptions of the last call
  (\<open>setSubscriptionsCalls_last\<close>, \<open>keys_allTopicsOf\<close>). A call whose two derived maps
  are deep-equal to the current ones only stores the subscriptions and reports them to
  the metrics collector: it requests no state, queues no emit, calls no block loader,
  and leaves \<^verbatim>\<open>#allTopics\<close> the same object. A subscription whose \<^verbatim>\<open>preloadType\<close> is
  there but undefined is not deep-equal to one without the property: the call is not
  taken as a repetition and \<^verbatim>\<open>#allTopics\<close> becomes a new object.
\<close>

lemma setSubscriptions_equal_maps:
  assumes "isEqualMap (allTopicsOf subs) (allTopics p)"
    and "isEqualMap (preloadTopicsOf subs) (preloadTopics p)"
  shows "setSubscriptions subs p
    = p\<lparr>subscriptions := subs, effects := effects p @ [MetricsSetSubscriptions subs]\<rparr>"
  using assms by (simp add: setSubscriptions_def effect_def Let_def)

lemma setSubscriptions_repeated:
  "setSubscriptions [subA, subB]
     (setSubscriptionsCalls [[subA], [subB, subA]] (idleAt \<lparr>sec = 3, nsec = 0\<rparr>))
   = (setSubscriptionsCalls [[subA], [subB, subA]] (idleAt \<lparr>sec = 3, nsec = 0\<rparr>))
       \<lparr>subscriptions := [subA, subB],
        effects := effects (setSubscriptionsCalls [[subA], [subB, subA]] (idleAt \<lparr>sec = 3, nsec = 0\<rparr>))
                   @ [MetricsSetSubscriptions [subA, subB]]\<rparr>"
proof -
  let ?p = "setSubscriptionsCalls [[subA], [subB, subA]] (idleAt \<lparr>sec = 3, nsec = 0\<rparr>)"
  have "isEqualMap (allTopicsOf [subA, subB]) (allTopics ?p)"
    and "isEqualMap (preloadTopicsOf [subA, subB]) (preloadTopics ?p)"
    by code_simp+
  then show ?thesis by (rule setSubscriptions_equal_maps)
qed

lemma setSubscriptions_undefined_property:
  "\<not> isEqualMap (allTopicsOf [subBUndefined]) (allTopicsOf [subB])
   \<and> allTopicsId (setSubscriptions [subB] (idleAt \<lparr>sec = 3, nsec = 0\<rparr>)) = 1
   \<and> allTopicsId (setSubscriptions [subBUndefined]
        (setSubscriptions [subB] (idleAt \<lparr>sec = 3, nsec = 0\<rparr>))) = 2"
  by code_simp

section \<open>Properties of the run loop\<close>

lemma pending_close_kept: "nextState p = Some Close \<Longrightarrow> setState s p = p"
  by (simp add: setState_def)

text \<open>
  C2. The guard of \<^verbatim>\<open>#setState\<close> keeps a close that is pending (\<open>pending_close_kept\<close>),
  but \<^verbatim>\<open>#runState\<close> clears \<^verbatim>\<open>#nextState\<close> when it starts the close state. A request
  that arrives while \<^verbatim>\<open>#stateClose\<close> is awaiting is recorded, and the run loop starts
  that state when the close handler returns. Here the player is idle, \<^verbatim>\<open>close()\<close> is
  called, the idle handler returns, \<^verbatim>\<open>seekPlayback\<close> is called with a new time, the
  close handler returns: the run loop has started \<^verbatim>\<open>close\<close> and then
  \<^verbatim>\<open>seek-backfill\<close>. The same with the bare requests.
\<close>

theorem close_then_seek_runs_another_state:
  "startedStates (effects (runEvents [Request Close, HandlerReturns, Request SeekBackfill, HandlerReturns]
     (idleAt \<lparr>sec = 3, nsec = 0\<rparr>))) = [Close, SeekBackfill]
   \<and> map_sum id (\<lambda>p. startedStates (effects (runEvent HandlerReturns p)))
       (seekPlayback \<lparr>sec = 5, nsec = 0\<rparr> (runEvent HandlerReturns (close (idleAt \<lparr>sec = 3, nsec = 0\<rparr>))))
     = Inr [Close, SeekBackfill]"
  by code_simp

section \<open>Properties of the initialisation\<close>

text \<open>The decimal digits of two numbers differ: the ids \<^verbatim>\<open>init-problem-n\<close> are distinct.\<close>

lemma showNat_nonempty: "showNat n \<noteq> []"
  by (subst showNat.simps) simp

lemma digit_inj: "a < 10 \<Longrightarrow> b < 10 \<Longrightarrow> (char_of (48 + a) :: char) = char_of (48 + b) \<Longrightarrow> a = (b::nat)"
proof -
  assume a: "a < 10" and b: "b < 10" and e: "(char_of (48 + a) :: char) = char_of (48 + b)"
  from e have "of_char (char_of (48 + a) :: char) = (of_char (char_of (48 + b) :: char) :: nat)" by simp
  then have "(48 + a) mod 256 = (48 + b) mod 256" by simp
  with a b show ?thesis by simp
qed

lemma showNat_inj: "showNat a = showNat b \<Longrightarrow> a = b"
proof (induction a arbitrary: b rule: showNat.induct)
  case (1 n)
  show ?case
  proof (cases "n < 10")
    case True
    then have sn: "showNat n = [char_of (48 + n)]" by (subst showNat.simps) simp
    show ?thesis
    proof (cases "b < 10")
      case True
      then have "showNat b = [char_of (48 + b)]" by (subst showNat.simps) simp
      with sn "1.prems" have "(char_of (48 + n) :: char) = char_of (48 + b)" by simp
      with \<open>n < 10\<close> True show ?thesis by (rule digit_inj)
    next
      case False
      then have "showNat b = showNat (b div 10) @ [char_of (48 + b mod 10)]"
        by (subst showNat.simps) simp
      with sn "1.prems" showNat_nonempty [of "b div 10"] show ?thesis by (cases "showNat (b div 10)") auto
    qed
  next
    case False
    then have sn: "showNat n = showNat (n div 10) @ [char_of (48 + n mod 10)]"
      by (subst showNat.simps) simp
    show ?thesis
    proof (cases "b < 10")
      case True
      then have "showNat b = [char_of (48 + b)]" by (subst showNat.simps) simp
      with sn "1.prems" showNat_nonempty [of "n div 10"] show ?thesis by (cases "showNat (n div 10)") auto
    next
      case bf: False
      then have "showNat b = showNat (b div 10) @ [char_of (48 + b mod 10)]"
        by (subst showNat.simps) simp
      with sn "1.prems" have e1: "showNat (n div 10) = showNat (b div 10)"
        and e2: "(char_of (48 + n mod 10) :: char) = char_of (48 + b mod 10)" by simp_all
      from "1.IH" [OF False e1] have d: "n div 10 = b div 10" .
      have "n mod 10 = b mod 10" by (rule digit_inj [OF _ _ e2]) simp_all
      with d show ?thesis by (metis div_mult_mod_eq)
    qed
  qed
qed

lemma update_absent: "k \<notin> fst ` set al \<Longrightarrow> AList.update k v al = al @ [(k, v)]"
  by (induction al) auto

lemma uniqueTopicsLoop_spec:
  "\<exists>ws. uniqueTopicsLoop ts u ps
      = (u @ map (\<lambda>t. (name t, t)) (keepFirstSeen (fst ` set u) ts), ps @ ws)
     \<and> map message ws = map (\<lambda>t. ''Inconsistent datatype for topic: '' @ name t)
                            (laterDuplicates (fst ` set u) ts)
     \<and> (\<forall>w \<in> set ws. severity w = SevWarn)"
proof (induction ts arbitrary: u ps)
  case Nil
  then show ?case by simp
next
  case (Cons t ts)
  show ?case
  proof (cases "map_of u (name t)")
    case None
    then have notin: "name t \<notin> fst ` set u" by (simp add: map_of_eq_None_iff)
    then have upd: "AList.update (name t) t u = u @ [(name t, t)]" by (rule update_absent)
    have keys: "fst ` set (u @ [(name t, t)]) = insert (name t) (fst ` set u)" by simp
    from Cons.IH [of "u @ [(name t, t)]" ps] obtain ws where
      w: "uniqueTopicsLoop ts (u @ [(name t, t)]) ps
          = ((u @ [(name t, t)]) @ map (\<lambda>t. (name t, t)) (keepFirstSeen (insert (name t) (fst ` set u)) ts), ps @ ws)"
      and m: "map message ws = map (\<lambda>t. ''Inconsistent datatype for topic: '' @ name t)
                            (laterDuplicates (insert (name t) (fst ` set u)) ts)"
      and s: "\<forall>w \<in> set ws. severity w = SevWarn" unfolding keys by blast
    from None upd w notin have
      "uniqueTopicsLoop (t # ts) u ps
        = (u @ map (\<lambda>t. (name t, t)) (keepFirstSeen (fst ` set u) (t # ts)), ps @ ws)"
      by simp
    moreover from m notin have "map message ws = map (\<lambda>t. ''Inconsistent datatype for topic: '' @ name t)
                            (laterDuplicates (fst ` set u) (t # ts))" by simp
    ultimately show ?thesis using s by blast
  next
    case (Some existing)
    then have isin: "name t \<in> fst ` set u" by (metis map_of_eq_None_iff option.distinct(1))
    from Cons.IH [of u "ps @ [inconsistentDatatype existing t]"] obtain ws where
      w: "uniqueTopicsLoop ts u (ps @ [inconsistentDatatype existing t])
          = (u @ map (\<lambda>t. (name t, t)) (keepFirstSeen (fst ` set u) ts), (ps @ [inconsistentDatatype existing t]) @ ws)"
      and m: "map message ws = map (\<lambda>t. ''Inconsistent datatype for topic: '' @ name t)
                            (laterDuplicates (fst ` set u) ts)"
      and s: "\<forall>w \<in> set ws. severity w = SevWarn" by blast
    let ?ws = "inconsistentDatatype existing t # ws"
    from Some w isin have
      "uniqueTopicsLoop (t # ts) u ps
        = (u @ map (\<lambda>t. (name t, t)) (keepFirstSeen (fst ` set u) (t # ts)), ps @ ?ws)"
      by simp
    moreover from m isin have "map message ?ws = map (\<lambda>t. ''Inconsistent datatype for topic: '' @ name t)
                            (laterDuplicates (fst ` set u) (t # ts))"
      by (simp add: inconsistentDatatype_def)
    moreover from s have "\<forall>w \<in> set ?ws. severity w = SevWarn"
      by (simp add: inconsistentDatatype_def)
    ultimately show ?thesis by blast
  qed
qed

lemma laterDuplicates_count:
  "length (filter (\<lambda>t. name t = n) (laterDuplicates seen ts))
     = (if n \<in> seen then count_list (map name ts) n else count_list (map name ts) n - 1)"
  by (induction ts arbitrary: seen) auto

lemma keepFirstSeen_find:
  "find (\<lambda>t. name t = n) (keepFirstSeen seen ts)
     = (if n \<in> seen then None else find (\<lambda>t. name t = n) ts)"
  by (induction ts arbitrary: seen) auto

lemma keepFirstSeen_names: "name ` set (keepFirstSeen seen ts) \<inter> seen = {}"
  by (induction ts arbitrary: seen) auto

lemma keepFirstSeen_distinct: "distinct (map name (keepFirstSeen seen ts))"
proof (induction ts arbitrary: seen)
  case Nil
  then show ?case by simp
next
  case (Cons t ts)
  from keepFirstSeen_names [of "insert (name t) seen" ts]
  have "name t \<notin> name ` set (keepFirstSeen (insert (name t) seen) ts)" by blast
  with Cons.IH show ?case by simp
qed

lemma init_id_inj: "''init-problem-'' @ showNat i = ''init-problem-'' @ showNat j \<Longrightarrow> i = j"
  by (simp add: showNat_inj)

lemma addInitProblems_other:
  "(\<forall>i < length ps. k \<noteq> ''init-problem-'' @ showNat (idx + i)) \<Longrightarrow>
   map_of (problemsById (addInitProblems ps idx m)) k = map_of (problemsById m) k"
proof (induction ps arbitrary: idx m)
  case Nil
  then show ?case by simp
next
  case (Cons pr ps)
  from Cons.prems [rule_format, of 0] have k0: "k \<noteq> ''init-problem-'' @ showNat idx" by simp
  have "\<forall>i < length ps. k \<noteq> ''init-problem-'' @ showNat (idx + 1 + i)"
  proof (intro allI impI)
    fix i assume "i < length ps"
    then have "Suc i < length (pr # ps)" by simp
    with Cons.prems have "k \<noteq> ''init-problem-'' @ showNat (idx + Suc i)" by blast
    then show "k \<noteq> ''init-problem-'' @ showNat (idx + 1 + i)" by simp
  qed
  from Cons.IH [OF this] k0 show ?case
    by (simp add: addProblem_def update_conv')
qed

lemma addInitProblems_registered:
  "i < length ps \<Longrightarrow>
   map_of (problemsById (addInitProblems ps idx m)) (''init-problem-'' @ showNat (idx + i)) = Some (ps ! i)"
proof (induction ps arbitrary: idx m i)
  case Nil
  then show ?case by simp
next
  case (Cons pr ps)
  show ?case
  proof (cases i)
    case 0
    have "\<forall>j < length ps. ''init-problem-'' @ showNat idx \<noteq> ''init-problem-'' @ showNat (idx + 1 + j)"
      using showNat_inj by fastforce
    from addInitProblems_other [OF this] 0 show ?thesis
      by (simp add: addProblem_def update_conv')
  next
    case (Suc j)
    with Cons.prems have "j < length ps" by simp
    from Cons.IH [OF this, of "idx + 1"] Suc show ?thesis by simp
  qed
qed


lemma stateInitialize_fields:
  "providerTopics (stateInitialize (Inr ini) p)
     = map snd (fst (uniqueTopicsLoop (initTopics ini) [] (initProblems ini)))
   \<and> problemManager (stateInitialize (Inr ini) p)
     = addInitProblems (snd (uniqueTopicsLoop (initTopics ini) [] (initProblems ini))) 0 (problemManager p)
   \<and> hasError (stateInitialize (Inr ini) p) = hasError p"
  by (simp add: stateInitialize_def queueEmitState_def effect_def Let_def
      split: option.splits prod.splits)

lemma warnings_count:
  assumes "map message ws = map (\<lambda>t. pre @ name t) dups"
  shows "length (filter (\<lambda>w. message w = pre @ n) ws) = length (filter (\<lambda>t. name t = n) dups)"
proof -
  have "length (filter (\<lambda>w. message w = pre @ n) ws) = length (filter (\<lambda>m. m = pre @ n) (map message ws))"
    by (simp add: filter_map comp_def)
  also have "\<dots> = length (filter (\<lambda>m. m = pre @ n) (map (\<lambda>t. pre @ name t) dups))"
    by (simp only: assms)
  also have "\<dots> = length (filter (\<lambda>t. name t = n) dups)"
    by (simp add: filter_map comp_def)
  finally show ?thesis .
qed

text \<open>
  C5. For every list of topics that the source returns, \<^verbatim>\<open>#stateInitialize\<close> keeps
  as provider topics the first-seen topic of each name, in the order of the source, so
  the names are distinct and the definition kept for a name is the first one of the
  source. The problems it registers are the problems of the source followed by
  warnings, one for each later topic of a name already seen: for each name, the number
  of warnings \<^verbatim>\<open>Inconsistent datatype for topic: name\<close> is the number of topics of that
  name less one, which is exactly one when two topics share the name. Each problem is
  registered under its own id \<^verbatim>\<open>init-problem-i\<close>, the other ids of the registry keep
  their problems, and the error flag is not set: nothing is thrown.
\<close>

theorem stateInitialize_conflicting_topics:
  "providerTopics (stateInitialize (Inr ini) p) = keepFirstSeen {} (initTopics ini)
   \<and> distinct (map name (providerTopics (stateInitialize (Inr ini) p)))
   \<and> (\<forall>n. find (\<lambda>t. name t = n) (providerTopics (stateInitialize (Inr ini) p))
            = find (\<lambda>t. name t = n) (initTopics ini))
   \<and> (\<exists>ws. snd (uniqueTopicsLoop (initTopics ini) [] (initProblems ini)) = initProblems ini @ ws
         \<and> (\<forall>w \<in> set ws. severity w = SevWarn)
         \<and> (\<forall>n. length (filter (\<lambda>w. message w = ''Inconsistent datatype for topic: '' @ n) ws)
                  = count_list (map name (initTopics ini)) n - 1))
   \<and> (\<forall>i < length (snd (uniqueTopicsLoop (initTopics ini) [] (initProblems ini))).
         map_of (problemsById (problemManager (stateInitialize (Inr ini) p)))
           (''init-problem-'' @ showNat i)
         = Some (snd (uniqueTopicsLoop (initTopics ini) [] (initProblems ini)) ! i))
   \<and> (\<forall>k. (\<forall>i < length (snd (uniqueTopicsLoop (initTopics ini) [] (initProblems ini))).
               k \<noteq> ''init-problem-'' @ showNat i)
         \<longrightarrow> map_of (problemsById (problemManager (stateInitialize (Inr ini) p))) k
             = map_of (problemsById (problemManager p)) k)
   \<and> hasError (stateInitialize (Inr ini) p) = hasError p"
proof -
  let ?p' = "stateInitialize (Inr ini) p"
  let ?probs = "snd (uniqueTopicsLoop (initTopics ini) [] (initProblems ini))"
  from uniqueTopicsLoop_spec [of "initTopics ini" "[]" "initProblems ini"] obtain ws where
    u: "uniqueTopicsLoop (initTopics ini) [] (initProblems ini)
        = (map (\<lambda>t. (name t, t)) (keepFirstSeen {} (initTopics ini)), initProblems ini @ ws)"
    and m: "map message ws = map (\<lambda>t. ''Inconsistent datatype for topic: '' @ name t)
                            (laterDuplicates {} (initTopics ini))"
    and sv: "\<forall>w \<in> set ws. severity w = SevWarn" by auto
  have f: "providerTopics ?p' = map snd (fst (uniqueTopicsLoop (initTopics ini) [] (initProblems ini)))"
    and pm: "problemManager ?p' = addInitProblems ?probs 0 (problemManager p)"
    and he: "hasError ?p' = hasError p"
    using stateInitialize_fields [of ini p] by simp_all
  from f u have 1: "providerTopics ?p' = keepFirstSeen {} (initTopics ini)"
    by (simp add: comp_def)
  have 2: "distinct (map name (providerTopics ?p'))"
    unfolding 1 by (rule keepFirstSeen_distinct)
  have 3: "\<forall>n. find (\<lambda>t. name t = n) (providerTopics ?p') = find (\<lambda>t. name t = n) (initTopics ini)"
    unfolding 1 by (simp add: keepFirstSeen_find)
  have cnt: "\<forall>n. length (filter (\<lambda>w. message w = ''Inconsistent datatype for topic: '' @ n) ws)
                  = count_list (map name (initTopics ini)) n - 1"
    using warnings_count [OF m] by (simp add: laterDuplicates_count)
  from u sv cnt have 4: "\<exists>ws. ?probs = initProblems ini @ ws
         \<and> (\<forall>w \<in> set ws. severity w = SevWarn)
         \<and> (\<forall>n. length (filter (\<lambda>w. message w = ''Inconsistent datatype for topic: '' @ n) ws)
                  = count_list (map name (initTopics ini)) n - 1)"
    by auto
  have 5: "\<forall>i < length ?probs.
         map_of (problemsById (problemManager ?p')) (''init-problem-'' @ showNat i) = Some (?probs ! i)"
    unfolding pm using addInitProblems_registered [of _ ?probs 0 "problemManager p"] by simp
  have 6: "\<forall>k. (\<forall>i < length ?probs. k \<noteq> ''init-problem-'' @ showNat i)
         \<longrightarrow> map_of (problemsById (problemManager ?p')) k = map_of (problemsById (problemManager p)) k"
    unfolding pm using addInitProblems_other [of ?probs _ 0 "problemManager p"] by simp
  from 1 2 3 4 5 6 he show ?thesis by blast
qed

theorem stateInitialize_conflicting_topics_witness:
  "providerTopics (stateInitialize (Inr exampleInitialization) newIterablePlayer)
     = [\<lparr>name = ''/a'', schemaName = Some ''X''\<rparr>, \<lparr>name = ''/b'', schemaName = Some ''X''\<rparr>]
   \<and> map_of (problemsById (problemManager (stateInitialize (Inr exampleInitialization) newIterablePlayer)))
        ''init-problem-1''
     = Some (inconsistentDatatype \<lparr>name = ''/a'', schemaName = Some ''X''\<rparr>
              \<lparr>name = ''/a'', schemaName = Some ''Y''\<rparr>)"
proof -
  let ?probs = "snd (uniqueTopicsLoop (initTopics exampleInitialization) [] (initProblems exampleInitialization))"
  have pr: "?probs = [exampleWarning, inconsistentDatatype \<lparr>name = ''/a'', schemaName = Some ''X''\<rparr>
              \<lparr>name = ''/a'', schemaName = Some ''Y''\<rparr>]"
    by code_simp
  have k: "keepFirstSeen {} (initTopics exampleInitialization)
      = [\<lparr>name = ''/a'', schemaName = Some ''X''\<rparr>, \<lparr>name = ''/b'', schemaName = Some ''X''\<rparr>]"
    by (simp add: exampleInitialization_def exampleTopics_def)
  have s1: "showNat 1 = ''1''" by code_simp
  have l: "1 < length ?probs" unfolding pr by simp
  from stateInitialize_conflicting_topics [of exampleInitialization newIterablePlayer]
  have a: "providerTopics (stateInitialize (Inr exampleInitialization) newIterablePlayer)
      = keepFirstSeen {} (initTopics exampleInitialization)"
    and b: "\<forall>i < length ?probs.
         map_of (problemsById (problemManager (stateInitialize (Inr exampleInitialization) newIterablePlayer)))
           (''init-problem-'' @ showNat i) = Some (?probs ! i)"
    by blast+
  from b l have "map_of (problemsById (problemManager (stateInitialize (Inr exampleInitialization) newIterablePlayer)))
           (''init-problem-'' @ showNat 1) = Some (?probs ! 1)" by blast
  with a k pr s1 show ?thesis by simp
qed

section \<open>Properties of a tick\<close>


lemma compare_less_le_trans: "compare a b < 0 \<Longrightarrow> compare b c \<le> 0 \<Longrightarrow> compare a c < 0"
  by (auto simp: compare_def Let_def split: if_splits)

lemma compare_le_less_trans: "compare a b \<le> 0 \<Longrightarrow> compare b c < 0 \<Longrightarrow> compare a c < 0"
  by (auto simp: compare_def Let_def split: if_splits)

lemma compare_flip_ge: "(0 \<le> compare a b) = (compare b a \<le> 0)"
  by (auto simp: compare_def Let_def split: if_splits)

lemma compare_flip_gt: "(0 < compare a b) = (compare b a < 0)"
  by (auto simp: compare_def Let_def split: if_splits)

lemma compare_not_gt: "(\<not> 0 < compare a b) = (compare a b \<le> 0)"
  by auto



lemma startNextState_kept:
  "currentTime (startNextState p) = currentTime p \<and> messages (startNextState p) = messages p
   \<and> untilTime (startNextState p) = untilTime p \<and> isPlaying (startNextState p) = isPlaying p
   \<and> start (startNextState p) = start p \<and> end' (startNextState p) = end' p
   \<and> lastStamp (startNextState p) = lastStamp p
   \<and> lastMessageEvent (startNextState p) = lastMessageEvent p"
  by (simp add: startNextState_def effect_def queueEmitState_def Let_def split: option.splits)

lemma setState_kept:
  "currentTime (setState s p) = currentTime p \<and> messages (setState s p) = messages p
   \<and> untilTime (setState s p) = untilTime p \<and> isPlaying (setState s p) = isPlaying p
   \<and> start (setState s p) = start p \<and> end' (setState s p) = end' p
   \<and> lastStamp (setState s p) = lastStamp p
   \<and> lastMessageEvent (setState s p) = lastMessageEvent p"
  by (simp add: setState_def runState_def startNextState_kept effect_def Let_def)

lemma setState_Idle_iterator: "playbackIterator (setState Idle p) = playbackIterator p"
  by (simp add: setState_def runState_def startNextState_def effect_def Let_def)

lemma pausePlayback_kept:
  "currentTime (pausePlayback p) = currentTime p \<and> messages (pausePlayback p) = messages p
   \<and> start (pausePlayback p) = start p \<and> end' (pausePlayback p) = end' p
   \<and> lastStamp (pausePlayback p) = lastStamp p
   \<and> lastMessageEvent (pausePlayback p) = lastMessageEvent p
   \<and> playbackIterator (pausePlayback p) = playbackIterator p"
  by (simp add: pausePlayback_def setState_kept setState_Idle_iterator effect_def
      queueEmitState_def Let_def)


lemma finishTick_kept:
  "currentTime (finishTick endT msgs p) = Some endT \<and> messages (finishTick endT msgs p) = msgs
   \<and> start (finishTick endT msgs p) = start p \<and> end' (finishTick endT msgs p) = end' p
   \<and> lastStamp (finishTick endT msgs p) = lastStamp p
   \<and> lastMessageEvent (finishTick endT msgs p) = lastMessageEvent p
   \<and> playbackIterator (finishTick endT msgs p) = playbackIterator p"
  by (simp add: finishTick_def pausePlayback_kept effect_def queueEmitState_def Let_def)


lemma readLoop_kept:
  "readLoop endT it acc p = (acc', p') \<Longrightarrow>
   isPlaying p' = isPlaying p \<and> untilTime p' = untilTime p \<and> start p' = start p
   \<and> end' p' = end' p \<and> currentTime p' = currentTime p \<and> nextState p' = nextState p"
proof (induction it arbitrary: acc p)
  case Nil
  then show ?case by auto
next
  case (Cons r rest)
  show ?case
  proof (cases "nextState p = None")
    case False
    with Cons.prems show ?thesis by (cases r) (auto simp: Let_def)
  next
    case True
    show ?thesis
    proof (cases r)
      case (ResultProblem connectionId problem)
      with True Cons.prems have "readLoop endT rest acc
                (p\<lparr>playbackIterator := Some rest, problemManager :=
                      addProblem (''connid-'' @ showNat connectionId) problem (problemManager p)\<rparr>) = (acc', p')"
        by (simp add: Let_def)
      from Cons.IH [OF this] show ?thesis by simp
    next
      case (ResultStamp stamp)
      show ?thesis
      proof (cases "0 \<le> compare stamp endT")
        case True
        with \<open>nextState p = None\<close> ResultStamp Cons.prems show ?thesis by (auto simp: Let_def)
      next
        case False
        with \<open>nextState p = None\<close> ResultStamp Cons.prems
        have "readLoop endT rest acc (p\<lparr>playbackIterator := Some rest\<rparr>) = (acc', p')"
          by (simp add: Let_def)
        from Cons.IH [OF this] show ?thesis by simp
      qed
    next
      case (ResultMessageEvent msgEvent)
      show ?thesis
      proof (cases "0 < compare (receiveTime msgEvent) endT")
        case True
        with \<open>nextState p = None\<close> ResultMessageEvent Cons.prems show ?thesis by (auto simp: Let_def)
      next
        case False
        with \<open>nextState p = None\<close> ResultMessageEvent Cons.prems
        have "readLoop endT rest (acc @ [msgEvent]) (p\<lparr>playbackIterator := Some rest\<rparr>) = (acc', p')"
          by (simp add: Let_def)
        from Cons.IH [OF this] show ?thesis by simp
      qed
    qed
  qed
qed

lemma tick_completed:
  "tick tickTime p = Inr (Completed, p') \<Longrightarrow>
   isPlaying p \<and> (\<exists>endT p1. tickWindow tickTime p = Inr (endT, p1) \<and> tickRead endT p1 = Inr (Completed, p'))"
  by (auto simp: tick_def split: if_splits sum.splits)

lemma tickWindow_result:
  "tickWindow tickTime p = Inr (endT, p1) \<Longrightarrow>
   p1 = p\<lparr>lastTickMillis := Some tickTime, lastRangeMillis := Some (tickRangeMillis tickTime p)\<rparr>
   \<and> (\<exists>s e c target. start p = Some s \<and> end' p = Some e \<and> currentTime p = Some c
        \<and> add c (fromMillis (tickRangeMillis tickTime p)) = Inr target
        \<and> endT = clampTime target s (case untilTime p of Some u \<Rightarrow> u | None \<Rightarrow> e))"
  by (auto simp: tickWindow_def Let_def split: if_splits sum.splits option.splits)

lemma tickRead_cases:
  assumes "tickRead endT p1 = Inr (Completed, p')"
  shows "(\<exists>s. lastStamp p1 = Some s \<and> 0 \<le> compare s endT \<and> p' = finishTick endT [] p1)
    \<or> (\<not> (\<exists>s. lastStamp p1 = Some s \<and> 0 \<le> compare s endT)
       \<and> (\<exists>m. lastMessageEvent p1 = Some m \<and> 0 < compare (receiveTime m) endT)
       \<and> p' = finishTick endT [] (p1\<lparr>lastStamp := None\<rparr>))
    \<or> (\<not> (\<exists>s. lastStamp p1 = Some s \<and> 0 \<le> compare s endT)
       \<and> \<not> (\<exists>m. lastMessageEvent p1 = Some m \<and> 0 < compare (receiveTime m) endT)
       \<and> (\<exists>it acc' p4. playbackIterator p1 = Some it
            \<and> readLoop endT it (case lastMessageEvent p1 of Some m \<Rightarrow> [m] | None \<Rightarrow> [])
                  (p1\<lparr>lastStamp := None, lastMessageEvent := None\<rparr>) = (acc', p4)
            \<and> nextState p4 = None
            \<and> p' = finishTick endT acc' (p4\<lparr>presence := PRESENT\<rparr>)))"
proof (cases "\<exists>s. lastStamp p1 = Some s \<and> 0 \<le> compare s endT")
  case True
  with assms show ?thesis by (auto simp: tickRead_def)
next
  case ns: False
  then have ns': "\<not> (lastStamp p1 \<noteq> None \<and> compare (the (lastStamp p1)) endT \<ge> 0)" by auto
  show ?thesis
  proof (cases "\<exists>m. lastMessageEvent p1 = Some m \<and> 0 < compare (receiveTime m) endT")
    case True
    then have "lastMessageEvent (p1\<lparr>lastStamp := None\<rparr>) \<noteq> None
        \<and> compare (receiveTime (the (lastMessageEvent (p1\<lparr>lastStamp := None\<rparr>)))) endT > 0" by auto
    with assms ns' have "p' = finishTick endT [] (p1\<lparr>lastStamp := None\<rparr>)"
      unfolding tickRead_def Let_def by (simp only: if_False if_True sum.inject prod.inject simp_thms)
    with ns True show ?thesis by blast
  next
    case nm: False
    then have nm': "\<not> (lastMessageEvent (p1\<lparr>lastStamp := None\<rparr>) \<noteq> None
        \<and> compare (receiveTime (the (lastMessageEvent (p1\<lparr>lastStamp := None\<rparr>)))) endT > 0)" by auto
    let ?msgs = "(case lastMessageEvent p1 of Some m \<Rightarrow> [m] | None \<Rightarrow> [])"
    let ?p3 = "p1\<lparr>lastStamp := None, lastMessageEvent := None\<rparr>"
    from assms ns' nm' have t: "(case playbackIterator ?p3 of
                    None \<Rightarrow> Inl (Error ''Invariant. this._playbackIterator is undefined.'')
                  | Some it \<Rightarrow>
                      (let (msgEvents1, p4) = readLoop endT it ?msgs ?p3;
                           p5 = p4\<lparr>presence := PRESENT\<rparr>
                       in if nextState p5 \<noteq> None then Inr (PendingTransition, p5)
                          else Inr (Completed, finishTick endT msgEvents1 p5))) = Inr (Completed, p')"
      unfolding tickRead_def Let_def by (simp only: if_False) (simp cong: option.case_cong)
    then obtain it where it: "playbackIterator p1 = Some it"
      by (cases "playbackIterator p1") auto
    obtain acc' p4 where r: "readLoop endT it ?msgs ?p3 = (acc', p4)"
      by (cases "readLoop endT it ?msgs ?p3")
    from t it r have "nextState p4 = None \<and> p' = finishTick endT acc' (p4\<lparr>presence := PRESENT\<rparr>)"
      by (auto simp: Let_def split: if_splits)
    with ns nm it r show ?thesis by blast
  qed
qed

lemma tickRead_completed:
  assumes "tickRead endT p1 = Inr (Completed, p')"
  shows "\<exists>msgs q. p' = finishTick endT msgs q \<and> isPlaying q = isPlaying p1 \<and> untilTime q = untilTime p1"
proof -
  from tickRead_cases [OF assms] consider
    (stamp) "p' = finishTick endT [] p1"
    | (msg) "p' = finishTick endT [] (p1\<lparr>lastStamp := None\<rparr>)"
    | (loop) it acc' p4 where "readLoop endT it (case lastMessageEvent p1 of Some m \<Rightarrow> [m] | None \<Rightarrow> [])
                  (p1\<lparr>lastStamp := None, lastMessageEvent := None\<rparr>) = (acc', p4)"
        "p' = finishTick endT acc' (p4\<lparr>presence := PRESENT\<rparr>)"
    by blast
  then show ?thesis
  proof cases
    case stamp
    then show ?thesis by blast
  next
    case msg
    moreover have "isPlaying (p1\<lparr>lastStamp := None\<rparr>) = isPlaying p1
        \<and> untilTime (p1\<lparr>lastStamp := None\<rparr>) = untilTime p1" by simp
    ultimately show ?thesis by blast
  next
    case loop
    from readLoop_kept [OF loop(1)]
    have "isPlaying (p4\<lparr>presence := PRESENT\<rparr>) = isPlaying p1
        \<and> untilTime (p4\<lparr>presence := PRESENT\<rparr>) = untilTime p1" by simp
    with loop(2) show ?thesis by blast
  qed
qed







lemma messageEvents_pendingResults: "messageEvents (pendingResults p) = pendingMessageEvents p"
  by (simp add: pendingResults_def pendingMessageEvents_def split: option.splits)

lemma pending_fields:
  "lastStamp q = lastStamp p \<Longrightarrow> lastMessageEvent q = lastMessageEvent p \<Longrightarrow>
   playbackIterator q = playbackIterator p \<Longrightarrow>
   pendingResults q = pendingResults p \<and> pendingMessageEvents q = pendingMessageEvents p"
  by (simp add: pendingResults_def pendingMessageEvents_def)

lemma finishTick_pending:
  "pendingResults (finishTick endT msgs p) = pendingResults p
   \<and> pendingMessageEvents (finishTick endT msgs p) = pendingMessageEvents p"
  by (rule pending_fields) (simp_all add: finishTick_kept)

lemma all_later_filters:
  assumes "list_all (\<lambda>m. compare endT (receiveTime m) < 0) xs"
  shows "filter (\<lambda>m. compare (receiveTime m) endT \<le> 0) xs = []
    \<and> filter (\<lambda>m. compare endT (receiveTime m) < 0) xs = xs"
proof -
  have "\<forall>m \<in> set xs. \<not> compare (receiveTime m) endT \<le> 0"
  proof
    fix m assume "m \<in> set xs"
    with assms have "compare endT (receiveTime m) < 0" by (simp add: list_all_iff)
    then show "\<not> compare (receiveTime m) endT \<le> 0"
      by (auto simp: compare_def Let_def split: if_splits)
  qed
  moreover from assms have "\<forall>m \<in> set xs. compare endT (receiveTime m) < 0"
    by (simp add: list_all_iff)
  ultimately show ?thesis by (simp add: filter_empty_conv)
qed

lemma later_than_stamp:
  assumes "list_all (\<lambda>m. compare s (receiveTime m) < 0) xs" and "0 \<le> compare s endT"
  shows "list_all (\<lambda>m. compare endT (receiveTime m) < 0) xs"
proof -
  from assms(2) have "compare endT s \<le> 0" by (simp add: compare_flip_ge)
  with assms(1) show ?thesis
    by (auto simp: list_all_iff intro: compare_le_less_trans)
qed

lemma later_than_message:
  assumes "list_all (\<lambda>m'. compare (receiveTime m) (receiveTime m') \<le> 0) xs"
    and "0 < compare (receiveTime m) endT"
  shows "list_all (\<lambda>m. compare endT (receiveTime m) < 0) xs"
proof -
  from assms(2) have "compare endT (receiveTime m) < 0" by (simp add: compare_flip_gt)
  with assms(1) show ?thesis
    by (auto simp: list_all_iff intro: compare_less_le_trans)
qed

lemma readLoop_spec:
  assumes "nextState p = None" and "lastStamp p = None" and "lastMessageEvent p = None"
    and "iteratorOrdered it" and "readLoop endT it acc p = (acc', p')"
  shows "acc' = acc @ filter (\<lambda>m. compare (receiveTime m) endT \<le> 0) (messageEvents it)
    \<and> pendingMessageEvents p' = filter (\<lambda>m. compare endT (receiveTime m) < 0) (messageEvents it)
    \<and> iteratorOrdered (pendingResults p')"
  using assms
proof (induction it arbitrary: acc p)
  case Nil
  then show ?case by (auto simp: pendingMessageEvents_def pendingResults_def)
next
  case (Cons r rest)
  note ns = \<open>nextState p = None\<close> and ls = \<open>lastStamp p = None\<close> and lm = \<open>lastMessageEvent p = None\<close>
  show ?case
  proof (cases r)
    case (ResultProblem connectionId problem)
    let ?p1 = "p\<lparr>playbackIterator := Some rest, problemManager :=
                      addProblem (''connid-'' @ showNat connectionId) problem (problemManager p)\<rparr>"
    from ResultProblem ns Cons.prems(5) have r: "readLoop endT rest acc ?p1 = (acc', p')"
      by (simp add: Let_def)
    from ResultProblem Cons.prems(4) have o: "iteratorOrdered rest" by simp
    have "nextState ?p1 = None" "lastStamp ?p1 = None" "lastMessageEvent ?p1 = None"
      using ns ls lm by simp_all
    from Cons.IH [OF this o r] ResultProblem show ?thesis by simp
  next
    case (ResultStamp stamp)
    from ResultStamp Cons.prems(4) have o: "iteratorOrdered rest"
      and l: "list_all (\<lambda>m'. compare stamp (receiveTime m') < 0) (messageEvents rest)" by simp_all
    show ?thesis
    proof (cases "0 \<le> compare stamp endT")
      case True
      with ResultStamp ns Cons.prems(5) have a: "acc' = acc"
        and p': "p' = p\<lparr>playbackIterator := Some rest, lastStamp := Some stamp\<rparr>"
        by (simp_all add: Let_def)
      from later_than_stamp [OF l True] have "list_all (\<lambda>m. compare endT (receiveTime m) < 0) (messageEvents rest)" .
      from all_later_filters [OF this] a p' lm ResultStamp o l show ?thesis
        by (simp add: pendingMessageEvents_def pendingResults_def)
    next
      case False
      let ?p1 = "p\<lparr>playbackIterator := Some rest\<rparr>"
      from False ResultStamp ns Cons.prems(5) have r: "readLoop endT rest acc ?p1 = (acc', p')"
        by (simp add: Let_def)
      have "nextState ?p1 = None" "lastStamp ?p1 = None" "lastMessageEvent ?p1 = None"
        using ns ls lm by simp_all
      from Cons.IH [OF this o r] ResultStamp show ?thesis by simp
    qed
  next
    case (ResultMessageEvent msgEvent)
    from ResultMessageEvent Cons.prems(4) have o: "iteratorOrdered rest"
      and l: "list_all (\<lambda>m'. compare (receiveTime msgEvent) (receiveTime m') \<le> 0) (messageEvents rest)"
      by simp_all
    show ?thesis
    proof (cases "0 < compare (receiveTime msgEvent) endT")
      case True
      with ResultMessageEvent ns Cons.prems(5) have a: "acc' = acc"
        and p': "p' = p\<lparr>playbackIterator := Some rest, lastMessageEvent := Some msgEvent\<rparr>"
        by (simp_all add: Let_def)
      from True have gt: "compare endT (receiveTime msgEvent) < 0" by (simp add: compare_flip_gt)
      then have ng: "\<not> compare (receiveTime msgEvent) endT \<le> 0"
        by (auto simp: compare_def Let_def split: if_splits)
      from later_than_message [OF l True] have "list_all (\<lambda>m. compare endT (receiveTime m) < 0) (messageEvents rest)" .
      from all_later_filters [OF this] a p' ls ResultMessageEvent o l gt ng show ?thesis
        by (simp add: pendingMessageEvents_def pendingResults_def)
    next
      case False
      then have le: "compare (receiveTime msgEvent) endT \<le> 0" by simp
      then have nl: "\<not> compare endT (receiveTime msgEvent) < 0"
        by (auto simp: compare_def Let_def split: if_splits)
      let ?p1 = "p\<lparr>playbackIterator := Some rest\<rparr>"
      from False ResultMessageEvent ns Cons.prems(5)
      have r: "readLoop endT rest (acc @ [msgEvent]) ?p1 = (acc', p')"
        by (simp add: Let_def)
      have "nextState ?p1 = None" "lastStamp ?p1 = None" "lastMessageEvent ?p1 = None"
        using ns ls lm by simp_all
      from Cons.IH [OF this o r] ResultMessageEvent le nl show ?thesis by simp
    qed
  qed
qed


lemma pending_drop_stamp:
  "pendingMessageEvents (p\<lparr>lastStamp := None\<rparr>) = pendingMessageEvents p
   \<and> (iteratorOrdered (pendingResults p) \<longrightarrow> iteratorOrdered (pendingResults (p\<lparr>lastStamp := None\<rparr>)))"
  by (simp add: pendingResults_def pendingMessageEvents_def split: option.splits)

lemma stamp_before_pending:
  "lastStamp p = Some s \<Longrightarrow> iteratorOrdered (pendingResults p) \<Longrightarrow>
   list_all (\<lambda>m. compare s (receiveTime m) < 0) (pendingMessageEvents p)"
  by (simp add: pendingResults_def pendingMessageEvents_def split: option.splits)

lemma compare_refl: "compare a a = 0"
  by (simp add: compare_def)

lemma message_before_pending:
  "lastMessageEvent p = Some m \<Longrightarrow> lastStamp p = None \<Longrightarrow> iteratorOrdered (pendingResults p) \<Longrightarrow>
   list_all (\<lambda>m'. compare (receiveTime m) (receiveTime m') \<le> 0) (pendingMessageEvents p)"
  by (simp add: pendingResults_def pendingMessageEvents_def compare_refl split: option.splits)

lemma iterator_ordered:
  "playbackIterator p = Some it \<Longrightarrow> iteratorOrdered (pendingResults p) \<Longrightarrow> iteratorOrdered it"
  by (simp add: pendingResults_def split: option.splits)

lemma tickRead_messages:
  assumes t: "tickRead endT p1 = Inr (Completed, p')" and o: "iteratorOrdered (pendingResults p1)"
  shows "messages p' = filter (\<lambda>m. compare (receiveTime m) endT \<le> 0) (pendingMessageEvents p1)
    \<and> pendingMessageEvents p' = filter (\<lambda>m. compare endT (receiveTime m) < 0) (pendingMessageEvents p1)
    \<and> iteratorOrdered (pendingResults p')"
proof -
  from tickRead_cases [OF t] consider
    (stamp) s where "lastStamp p1 = Some s" "0 \<le> compare s endT" "p' = finishTick endT [] p1"
    | (msg) m where "lastMessageEvent p1 = Some m" "0 < compare (receiveTime m) endT"
        "p' = finishTick endT [] (p1\<lparr>lastStamp := None\<rparr>)"
    | (loop) it acc' p4 where
        "\<not> (\<exists>m. lastMessageEvent p1 = Some m \<and> 0 < compare (receiveTime m) endT)"
        "playbackIterator p1 = Some it"
        "readLoop endT it (case lastMessageEvent p1 of Some m \<Rightarrow> [m] | None \<Rightarrow> [])
           (p1\<lparr>lastStamp := None, lastMessageEvent := None\<rparr>) = (acc', p4)"
        "nextState p4 = None"
        "p' = finishTick endT acc' (p4\<lparr>presence := PRESENT\<rparr>)"
    by blast
  then show ?thesis
  proof cases
    case stamp
    from stamp_before_pending [OF stamp(1) o]
    have "list_all (\<lambda>m. compare endT (receiveTime m) < 0) (pendingMessageEvents p1)"
      using stamp(2) by (rule later_than_stamp)
    from all_later_filters [OF this] stamp(3) o show ?thesis
      by (simp add: finishTick_kept finishTick_pending)
  next
    case msg
    let ?p2 = "p1\<lparr>lastStamp := None\<rparr>"
    from o have o2: "iteratorOrdered (pendingResults ?p2)" by (simp add: pending_drop_stamp)
    have "lastMessageEvent ?p2 = Some m" "lastStamp ?p2 = None" using msg(1) by simp_all
    from message_before_pending [OF this o2]
    have "list_all (\<lambda>m. compare endT (receiveTime m) < 0) (pendingMessageEvents ?p2)"
      using msg(2) by (rule later_than_message)
    from all_later_filters [OF this] msg(3) o2 show ?thesis
      by (simp add: finishTick_kept finishTick_pending pending_drop_stamp)
  next
    case loop
    let ?acc = "(case lastMessageEvent p1 of Some m \<Rightarrow> [m] | None \<Rightarrow> [])"
    let ?p3 = "p1\<lparr>lastStamp := None, lastMessageEvent := None\<rparr>"
    from readLoop_kept [OF loop(3)] loop(4) have n3: "nextState ?p3 = None" by simp
    have l3: "lastStamp ?p3 = None" "lastMessageEvent ?p3 = None" by simp_all
    from iterator_ordered [OF loop(2) o] have oi: "iteratorOrdered it" .
    from readLoop_spec [OF n3 l3 oi loop(3)]
    have a: "acc' = ?acc @ filter (\<lambda>m. compare (receiveTime m) endT \<le> 0) (messageEvents it)"
      and b: "pendingMessageEvents p4 = filter (\<lambda>m. compare endT (receiveTime m) < 0) (messageEvents it)"
      and c: "iteratorOrdered (pendingResults p4)" by simp_all
    have pm: "pendingMessageEvents p1 = ?acc @ messageEvents it"
      using loop(2) by (simp add: pendingMessageEvents_def)
    have f1: "filter (\<lambda>m. compare (receiveTime m) endT \<le> 0) ?acc = ?acc"
      using loop(1) by (auto split: option.splits)
    have f2: "filter (\<lambda>m. compare endT (receiveTime m) < 0) ?acc = []"
    proof (cases "lastMessageEvent p1")
      case None
      then show ?thesis by simp
    next
      case (Some m)
      with loop(1) have "compare (receiveTime m) endT \<le> 0" by auto
      then have "\<not> compare endT (receiveTime m) < 0"
        by (auto simp: compare_def Let_def split: if_splits)
      with Some show ?thesis by simp
    qed
    have k: "pendingResults (p4\<lparr>presence := PRESENT\<rparr>) = pendingResults p4
        \<and> pendingMessageEvents (p4\<lparr>presence := PRESENT\<rparr>) = pendingMessageEvents p4"
      by (rule pending_fields) simp_all
    from a b c pm f1 f2 k loop(5) show ?thesis
      by (simp add: finishTick_kept finishTick_pending)
  qed
qed

text \<open>
  C1, as the code has it. A tick that completes sets the current time to the end of its
  window: the current time before the tick plus the smoothed range, clamped between the
  start and the until-time or else the end. When the iterator keeps its contract at the
  current time \<open>c\<close>, the messages set for the next emit are exactly the message events
  still to come whose receive time is after \<open>c\<close> and at most the new current time \<open>w\<close>,
  in their order; the message events still to come after the tick are exactly those
  later than \<open>w\<close>, so none is lost and none is delivered twice; the contract holds again
  at \<open>w\<close>; and when the tick delivers a message the current time has strictly advanced.
\<close>

theorem tick_window_and_messages:
  assumes "tick tickTime p = Inr (Completed, p')"
  shows "\<exists>s e c target w.
      start p = Some s \<and> end' p = Some e \<and> currentTime p = Some c
      \<and> add c (fromMillis (tickRangeMillis tickTime p)) = Inr target
      \<and> w = clampTime target s (case untilTime p of Some u \<Rightarrow> u | None \<Rightarrow> e)
      \<and> currentTime p' = Some w
      \<and> (iteratorContract c p \<longrightarrow>
           messages p' = filter (\<lambda>m. compare c (receiveTime m) < 0 \<and> compare (receiveTime m) w \<le> 0)
                           (pendingMessageEvents p)
           \<and> pendingMessageEvents p' = filter (\<lambda>m. compare w (receiveTime m) < 0) (pendingMessageEvents p)
           \<and> iteratorContract w p'
           \<and> (messages p' \<noteq> [] \<longrightarrow> compare c w < 0))"
proof -
  from tick_completed [OF assms] obtain endT p1 where
    w: "tickWindow tickTime p = Inr (endT, p1)" and r: "tickRead endT p1 = Inr (Completed, p')"
    by blast
  from tickWindow_result [OF w] obtain s e c target where
    p1: "p1 = p\<lparr>lastTickMillis := Some tickTime, lastRangeMillis := Some (tickRangeMillis tickTime p)\<rparr>"
    and f: "start p = Some s" "end' p = Some e" "currentTime p = Some c"
      "add c (fromMillis (tickRangeMillis tickTime p)) = Inr target"
    and e: "endT = clampTime target s (case untilTime p of Some u \<Rightarrow> u | None \<Rightarrow> e)"
    by blast
  from tickRead_completed [OF r] have ct: "currentTime p' = Some endT"
    by (auto simp: finishTick_kept)
  have pp: "pendingResults p1 = pendingResults p \<and> pendingMessageEvents p1 = pendingMessageEvents p"
    unfolding p1 by (rule pending_fields) simp_all
  have "iteratorContract c p \<longrightarrow>
           messages p' = filter (\<lambda>m. compare c (receiveTime m) < 0 \<and> compare (receiveTime m) endT \<le> 0)
                           (pendingMessageEvents p)
           \<and> pendingMessageEvents p' = filter (\<lambda>m. compare endT (receiveTime m) < 0) (pendingMessageEvents p)
           \<and> iteratorContract endT p'
           \<and> (messages p' \<noteq> [] \<longrightarrow> compare c endT < 0)"
  proof
    assume ic: "iteratorContract c p"
    then have o: "iteratorOrdered (pendingResults p1)"
      and al: "\<forall>m \<in> set (pendingMessageEvents p). compare c (receiveTime m) < 0"
      by (simp_all add: iteratorContract_def pp list_all_iff)
    from tickRead_messages [OF r o] pp
    have m: "messages p' = filter (\<lambda>m. compare (receiveTime m) endT \<le> 0) (pendingMessageEvents p)"
      and pe: "pendingMessageEvents p' = filter (\<lambda>m. compare endT (receiveTime m) < 0) (pendingMessageEvents p)"
      and o': "iteratorOrdered (pendingResults p')" by simp_all
    from al have m': "messages p' = filter (\<lambda>m. compare c (receiveTime m) < 0 \<and> compare (receiveTime m) endT \<le> 0)
                           (pendingMessageEvents p)"
      unfolding m by (intro filter_cong) auto
    from pe o' have ic': "iteratorContract endT p'"
      by (simp add: iteratorContract_def list_all_iff)
    have "messages p' \<noteq> [] \<longrightarrow> compare c endT < 0"
    proof
      assume "messages p' \<noteq> []"
      then obtain x where "x \<in> set (messages p')" by (cases "messages p'") auto
      with m' have "compare c (receiveTime x) < 0" "compare (receiveTime x) endT \<le> 0" by auto
      then show "compare c endT < 0" by (rule compare_less_le_trans)
    qed
    with m' pe ic' show "messages p' = filter (\<lambda>m. compare c (receiveTime m) < 0 \<and> compare (receiveTime m) endT \<le> 0)
                           (pendingMessageEvents p)
           \<and> pendingMessageEvents p' = filter (\<lambda>m. compare endT (receiveTime m) < 0) (pendingMessageEvents p)
           \<and> iteratorContract endT p'
           \<and> (messages p' \<noteq> [] \<longrightarrow> compare c endT < 0)" by blast
  qed
  with f e ct show ?thesis by blast
qed

text \<open>
  C1 as stated fails: at speed 0 the range is 0 ms, the tick completes with no state
  requested, and the current time is what it was.
\<close>

theorem tick_speed_zero_stalls:
  "\<not> isl (tick 0 stalledPlayer) \<and> fst (projr (tick 0 stalledPlayer)) = Completed
   \<and> nextState (snd (projr (tick 0 stalledPlayer))) = None
   \<and> currentTime (snd (projr (tick 0 stalledPlayer))) = currentTime stalledPlayer"
  by code_simp

text \<open>
  Why the contract asks that the message events after a stamp be strictly later than the
  stamp: the loop stops at a stamp that is at or after the end of the window, so a
  message at the very time of such a stamp waits for the next tick. Here the window ends
  at 3 s, the message at 3 s is not in the batch, and it is still to come.
\<close>

lemma tick_stops_at_stamp:
  "fst (projr (tick 1300 stampedPlayer)) = Completed
   \<and> currentTime (snd (projr (tick 1300 stampedPlayer))) = Some \<lparr>sec = 3, nsec = 0\<rparr>
   \<and> messages (snd (projr (tick 1300 stampedPlayer))) = []
   \<and> pendingMessageEvents (snd (projr (tick 1300 stampedPlayer))) = [messageAt 3]
   \<and> \<not> iteratorContract \<lparr>sec = 2, nsec = 700000000\<rparr> stampedPlayer"
  by code_simp

theorem tick_window_and_messages_witness:
  "iteratorContract \<lparr>sec = 2, nsec = 900000000\<rparr> midPlayer
   \<and> fst (projr (tick 1300 midPlayer)) = Completed
   \<and> currentTime (snd (projr (tick 1300 midPlayer))) = Some \<lparr>sec = 3, nsec = 200000000\<rparr>
   \<and> messages (snd (projr (tick 1300 midPlayer))) = [messageAt 3]
   \<and> pendingMessageEvents (snd (projr (tick 1300 midPlayer))) = [messageAt 4]"
proof -
  let ?c = "\<lparr>sec = 2, nsec = 900000000\<rparr>"
  let ?w = "\<lparr>sec = 3, nsec = 200000000\<rparr>"
  let ?p' = "snd (projr (tick 1300 midPlayer))"
  have tk: "tick 1300 midPlayer = Inr (Completed, ?p')" by code_simp
  have ic: "iteratorContract ?c midPlayer" by code_simp
  have c: "currentTime midPlayer = Some ?c" by code_simp
  have w: "currentTime ?p' = Some ?w" by code_simp
  from tick_window_and_messages [OF tk] c w ic
  have m: "messages ?p' = filter (\<lambda>m. compare ?c (receiveTime m) < 0 \<and> compare (receiveTime m) ?w \<le> 0)
                           (pendingMessageEvents midPlayer)"
    and pe: "pendingMessageEvents ?p' = filter (\<lambda>m. compare ?w (receiveTime m) < 0) (pendingMessageEvents midPlayer)"
    by auto
  have f1: "filter (\<lambda>m. compare ?c (receiveTime m) < 0 \<and> compare (receiveTime m) ?w \<le> 0)
                           (pendingMessageEvents midPlayer) = [messageAt 3]" by code_simp
  have f2: "filter (\<lambda>m. compare ?w (receiveTime m) < 0) (pendingMessageEvents midPlayer) = [messageAt 4]"
    by code_simp
  have cp: "fst (projr (tick 1300 midPlayer)) = Completed" by (subst tk) simp
  from ic cp w m pe f1 f2 show ?thesis by simp
qed

section \<open>Properties of the play state\<close>

text \<open>
  While \<^verbatim>\<open>#allTopics\<close> is the map that \<^verbatim>\<open>#statePlay\<close> kept at its entry, the loop
  opens no iterator and asks for none: whatever the clocks, it leaves the map as it
  is, the state is the one it was or idle, the playback iterator is what remains of the
  one it had, and \<^verbatim>\<open>reset-playback-iterator\<close> is not requested.
\<close>

lemma startNextState_map:
  "allTopicsId (startNextState p) = allTopicsId p
   \<and> (state (startNextState p) = state p \<or> Some (state (startNextState p)) = nextState p)
   \<and> nextState (startNextState p) = None
   \<and> (nextState p = Some Idle \<longrightarrow> playbackIterator (startNextState p) = playbackIterator p)"
  by (simp add: startNextState_def effect_def queueEmitState_def Let_def split: option.splits)

lemma setState_Idle_map:
  "allTopicsId (setState Idle p) = allTopicsId p
   \<and> (state (setState Idle p) = state p \<or> state (setState Idle p) = Idle)
   \<and> nextState (setState Idle p) \<noteq> Some ResetPlaybackIterator"
proof (cases "nextState p = Some Close")
  case True
  then show ?thesis by (simp add: setState_def)
next
  case False
  let ?p2 = "(if abort (p\<lparr>nextState := Some Idle\<rparr>) then effect AbortSignal (p\<lparr>nextState := Some Idle\<rparr>)
              else p\<lparr>nextState := Some Idle\<rparr>)\<lparr>abort := False\<rparr>"
  have s: "setState Idle p = runState ?p2" using False by (simp add: setState_def Let_def)
  have f: "allTopicsId ?p2 = allTopicsId p" "state ?p2 = state p" "nextState ?p2 = Some Idle"
    by (simp_all add: effect_def)
  show ?thesis
  proof (cases "runningState ?p2")
    case True
    with s f show ?thesis by (simp add: runState_def)
  next
    case False
    let ?p3 = "?p2\<lparr>runningState := True\<rparr>"
    have f3: "allTopicsId ?p3 = allTopicsId p" "state ?p3 = state p" "nextState ?p3 = Some Idle"
      using f by simp_all
    from False s have "setState Idle p = startNextState ?p3" by (simp add: runState_def)
    with startNextState_map [of ?p3] f3 show ?thesis by auto
  qed
qed

lemma pausePlayback_map:
  "allTopicsId (pausePlayback p) = allTopicsId p
   \<and> (state (pausePlayback p) = state p \<or> state (pausePlayback p) = Idle)
   \<and> (nextState (pausePlayback p) = Some ResetPlaybackIterator \<longrightarrow> nextState p = Some ResetPlaybackIterator)"
proof (cases "isPlaying p")
  case False
  then show ?thesis by (simp add: pausePlayback_def)
next
  case True
  let ?p1 = "(effect MetricsPause p)\<lparr>lastTickMillis := None, isPlaying := False, untilTime := None,
                   lastRangeMillis := None\<rparr>"
  have f: "allTopicsId ?p1 = allTopicsId p" "state ?p1 = state p" "nextState ?p1 = nextState p"
    by (simp_all add: effect_def)
  show ?thesis
  proof (cases "state p = Play")
    case True
    with \<open>isPlaying p\<close> f have "pausePlayback p = setState Idle ?p1"
      by (simp add: pausePlayback_def Let_def)
    with setState_Idle_map [of ?p1] f show ?thesis by auto
  next
    case False
    with \<open>isPlaying p\<close> f have "pausePlayback p = queueEmitState ?p1"
      by (simp add: pausePlayback_def Let_def)
    with f show ?thesis by (simp add: queueEmitState_def effect_def)
  qed
qed

lemma finishTick_map:
  "allTopicsId (finishTick endT msgs p) = allTopicsId p
   \<and> (state (finishTick endT msgs p) = state p \<or> state (finishTick endT msgs p) = Idle)
   \<and> (nextState (finishTick endT msgs p) = Some ResetPlaybackIterator
        \<longrightarrow> nextState p = Some ResetPlaybackIterator)"
proof -
  let ?p1 = "queueEmitState (p\<lparr>currentTime := Some endT, messages := msgs\<rparr>)"
  have f: "allTopicsId ?p1 = allTopicsId p" "state ?p1 = state p" "nextState ?p1 = nextState p"
    by (simp_all add: queueEmitState_def effect_def)
  have "finishTick endT msgs p = pausePlayback ?p1 \<or> finishTick endT msgs p = ?p1"
    by (simp add: finishTick_def Let_def)
  with pausePlayback_map [of ?p1] f show ?thesis by auto
qed

lemma readLoop_map:
  "readLoop endT it acc p = (acc', p') \<Longrightarrow>
   allTopicsId p' = allTopicsId p \<and> state p' = state p
   \<and> (\<exists>k. playbackIterator p' = Some (drop k it))"
proof (induction it arbitrary: acc p)
  case Nil
  then show ?case by auto
next
  case (Cons r rest)
  have here: "\<exists>k. Some rest = Some (drop k (r # rest))"
    by (rule exI [of _ 1]) simp
  have later: "\<And>q. \<exists>k. playbackIterator q = Some (drop k rest) \<Longrightarrow>
      \<exists>k. playbackIterator q = Some (drop k (r # rest))"
  proof -
    fix q assume "\<exists>k. playbackIterator q = Some (drop k rest)"
    then obtain k where "playbackIterator q = Some (drop k rest)" by blast
    then have "playbackIterator q = Some (drop (Suc k) (r # rest))" by simp
    then show "\<exists>k. playbackIterator q = Some (drop k (r # rest))" by blast
  qed
  show ?case
  proof (cases "nextState p = None")
    case False
    with Cons.prems have "p' = p\<lparr>playbackIterator := Some rest\<rparr>"
      by (cases r) (auto simp: Let_def)
    with here show ?thesis by simp
  next
    case True
    show ?thesis
    proof (cases r)
      case (ResultProblem connectionId problem)
      with True Cons.prems have "readLoop endT rest acc
                (p\<lparr>playbackIterator := Some rest, problemManager :=
                      addProblem (''connid-'' @ showNat connectionId) problem (problemManager p)\<rparr>) = (acc', p')"
        by (simp add: Let_def)
      from Cons.IH [OF this] later [of p'] show ?thesis by simp
    next
      case (ResultStamp stamp)
      show ?thesis
      proof (cases "0 \<le> compare stamp endT")
        case True
        with \<open>nextState p = None\<close> ResultStamp Cons.prems
        have "p' = p\<lparr>playbackIterator := Some rest, lastStamp := Some stamp\<rparr>"
          by (auto simp: Let_def)
        with here show ?thesis by simp
      next
        case False
        with \<open>nextState p = None\<close> ResultStamp Cons.prems
        have "readLoop endT rest acc (p\<lparr>playbackIterator := Some rest\<rparr>) = (acc', p')"
          by (simp add: Let_def)
        from Cons.IH [OF this] later [of p'] show ?thesis by simp
      qed
    next
      case (ResultMessageEvent msgEvent)
      show ?thesis
      proof (cases "0 < compare (receiveTime msgEvent) endT")
        case True
        with \<open>nextState p = None\<close> ResultMessageEvent Cons.prems
        have "p' = p\<lparr>playbackIterator := Some rest, lastMessageEvent := Some msgEvent\<rparr>"
          by (auto simp: Let_def)
        with here show ?thesis by simp
      next
        case False
        with \<open>nextState p = None\<close> ResultMessageEvent Cons.prems
        have "readLoop endT rest (acc @ [msgEvent]) (p\<lparr>playbackIterator := Some rest\<rparr>) = (acc', p')"
          by (simp add: Let_def)
        from Cons.IH [OF this] later [of p'] show ?thesis by simp
      qed
    qed
  qed
qed


lemma tickRead_map:
  assumes t: "tickRead endT p1 = Inr (ex, p')" and i: "playbackIterator p1 = Some it"
  shows "allTopicsId p' = allTopicsId p1 \<and> (state p' = state p1 \<or> state p' = Idle)
    \<and> (\<exists>k. playbackIterator p' = Some (drop k it))
    \<and> (nextState p' = Some ResetPlaybackIterator \<longrightarrow> nextState p1 = Some ResetPlaybackIterator)"
proof -
  have keep: "\<And>(q::IterablePlayer) msgs. allTopicsId q = allTopicsId p1 \<Longrightarrow> state q = state p1 \<Longrightarrow>
      \<exists>k. playbackIterator q = Some (drop k it) \<Longrightarrow> nextState q = nextState p1 \<Longrightarrow>
      allTopicsId (finishTick endT msgs q) = allTopicsId p1
      \<and> (state (finishTick endT msgs q) = state p1 \<or> state (finishTick endT msgs q) = Idle)
      \<and> (\<exists>k. playbackIterator (finishTick endT msgs q) = Some (drop k it))
      \<and> (nextState (finishTick endT msgs q) = Some ResetPlaybackIterator
           \<longrightarrow> nextState p1 = Some ResetPlaybackIterator)"
  proof -
    fix q :: IterablePlayer and msgs
    assume "allTopicsId q = allTopicsId p1" "state q = state p1"
      "\<exists>k. playbackIterator q = Some (drop k it)" "nextState q = nextState p1"
    with finishTick_map [of endT msgs q] finishTick_kept [of endT msgs q]
    show "allTopicsId (finishTick endT msgs q) = allTopicsId p1
      \<and> (state (finishTick endT msgs q) = state p1 \<or> state (finishTick endT msgs q) = Idle)
      \<and> (\<exists>k. playbackIterator (finishTick endT msgs q) = Some (drop k it))
      \<and> (nextState (finishTick endT msgs q) = Some ResetPlaybackIterator
           \<longrightarrow> nextState p1 = Some ResetPlaybackIterator)" by auto
  qed
  have it0: "\<exists>k. playbackIterator p1 = Some (drop k it)"
    using i by (intro exI [of _ 0]) simp
  show ?thesis
  proof (cases "lastStamp p1 \<noteq> None \<and> compare (the (lastStamp p1)) endT \<ge> 0")
    case True
    with t have "p' = finishTick endT [] p1" by (auto simp: tickRead_def)
    with keep [of p1 "[]"] it0 show ?thesis by simp
  next
    case ns: False
    let ?p2 = "p1\<lparr>lastStamp := None\<rparr>"
    show ?thesis
    proof (cases "lastMessageEvent ?p2 \<noteq> None
        \<and> compare (receiveTime (the (lastMessageEvent ?p2))) endT > 0")
      case True
      with t ns have "p' = finishTick endT [] ?p2"
        unfolding tickRead_def Let_def by (simp only: if_False if_True sum.inject prod.inject simp_thms)
      moreover have "\<exists>k. playbackIterator ?p2 = Some (drop k it)" using it0 by simp
      ultimately show ?thesis using keep [of ?p2 "[]"] by simp
    next
      case nm: False
      let ?msgs = "(case lastMessageEvent p1 of Some m \<Rightarrow> [m] | None \<Rightarrow> [])"
      let ?p3 = "p1\<lparr>lastStamp := None, lastMessageEvent := None\<rparr>"
      obtain acc' p4 where r: "readLoop endT it ?msgs ?p3 = (acc', p4)"
        by (cases "readLoop endT it ?msgs ?p3")
      from t ns nm i r have c: "p' = p4\<lparr>presence := PRESENT\<rparr>
          \<or> p' = finishTick endT acc' (p4\<lparr>presence := PRESENT\<rparr>)"
        unfolding tickRead_def Let_def
        by (simp only: if_False) (auto simp: Let_def split: if_splits cong: option.case_cong)
      from readLoop_map [OF r] readLoop_kept [OF r]
      have f: "allTopicsId (p4\<lparr>presence := PRESENT\<rparr>) = allTopicsId p1"
        "state (p4\<lparr>presence := PRESENT\<rparr>) = state p1"
        "\<exists>k. playbackIterator (p4\<lparr>presence := PRESENT\<rparr>) = Some (drop k it)"
        "nextState (p4\<lparr>presence := PRESENT\<rparr>) = nextState p1"
        by simp_all
      from c show ?thesis
      proof
        assume "p' = p4\<lparr>presence := PRESENT\<rparr>"
        with f show ?thesis by simp
      next
        assume "p' = finishTick endT acc' (p4\<lparr>presence := PRESENT\<rparr>)"
        with keep [OF f, of acc'] show ?thesis by simp
      qed
    qed
  qed
qed

lemma tick_map:
  assumes t: "tick tickTime p = Inr (ex, p')" and i: "playbackIterator p = Some it"
  shows "allTopicsId p' = allTopicsId p \<and> (state p' = state p \<or> state p' = Idle)
    \<and> (\<exists>k. playbackIterator p' = Some (drop k it))
    \<and> (nextState p' = Some ResetPlaybackIterator \<longrightarrow> nextState p = Some ResetPlaybackIterator)"
proof (cases "isPlaying p")
  case False
  with t have "p' = p" by (simp add: tick_def)
  moreover have "\<exists>k. playbackIterator p = Some (drop k it)" using i by (intro exI [of _ 0]) simp
  ultimately show ?thesis by simp
next
  case True
  with t obtain endT p1 where w: "tickWindow tickTime p = Inr (endT, p1)"
    and r: "tickRead endT p1 = Inr (ex, p')"
    by (auto simp: tick_def split: sum.splits)
  from tickWindow_result [OF w]
  have p1: "p1 = p\<lparr>lastTickMillis := Some tickTime, lastRangeMillis := Some (tickRangeMillis tickTime p)\<rparr>"
    by simp
  then have i1: "playbackIterator p1 = Some it" using i by simp
  from tickRead_map [OF r i1] p1 show ?thesis by simp
qed

lemma statePlayTurn_same_map:
  assumes t: "statePlayTurn (allTopicsId p) tickTime p = Inr (x, p')"
    and i: "playbackIterator p = Some it"
  shows "allTopicsId p' = allTopicsId p \<and> (state p' = state p \<or> state p' = Idle)
    \<and> (\<exists>k. playbackIterator p' = Some (drop k it))
    \<and> (nextState p' = Some ResetPlaybackIterator \<longrightarrow> nextState p = Some ResetPlaybackIterator)"
proof -
  have it0: "\<exists>k. playbackIterator p = Some (drop k it)"
    using i by (intro exI [of _ 0]) simp
  show ?thesis
  proof (cases "isPlaying p \<and> \<not> hasError p \<and> nextState p = None")
    case False
    with t have "p' = p" by (auto simp: statePlayTurn_def)
    with it0 show ?thesis by simp
  next
    case c: True
    show ?thesis
    proof (cases "compare (the (currentTime p)) (the (end' p)) \<ge> 0")
      case True
      let ?q = "p\<lparr>lastTickMillis := None, lastRangeMillis := None, lastStamp := None\<rparr>"
      from t c True have "p' = setState Idle ?q" by (simp add: statePlayTurn_def)
      with setState_Idle_map [of ?q] setState_Idle_iterator [of ?q] it0 show ?thesis by auto
    next
      case False
      with t c obtain ex p1 where k: "tick tickTime p = Inr (ex, p1)"
        by (auto simp: statePlayTurn_def split: sum.splits)
      from tick_map [OF k i] have m: "allTopicsId p1 = allTopicsId p"
        "state p1 = state p \<or> state p1 = Idle"
        "\<exists>k. playbackIterator p1 = Some (drop k it)"
        "nextState p1 = Some ResetPlaybackIterator \<longrightarrow> nextState p = Some ResetPlaybackIterator"
        by simp_all
      from t c False k m(1) have "p' = p1"
        by (auto simp: statePlayTurn_def split: if_splits)
      with m show ?thesis by simp
    qed
  qed
qed

lemma statePlayLoop_same_map:
  assumes "statePlayLoop (allTopicsId p) clock p = Inr (x, p')"
    and "playbackIterator p = Some it" and "nextState p \<noteq> Some ResetPlaybackIterator"
  shows "allTopicsId p' = allTopicsId p \<and> (state p' = state p \<or> state p' = Idle)
    \<and> (\<exists>k. playbackIterator p' = Some (drop k it))
    \<and> nextState p' \<noteq> Some ResetPlaybackIterator"
  using assms
proof (induction clock arbitrary: p it)
  case Nil
  then have "p' = p" by simp
  moreover have "\<exists>k. playbackIterator p = Some (drop k it)"
    using Nil.prems(2) by (intro exI [of _ 0]) simp
  ultimately show ?case using Nil.prems(3) by simp
next
  case (Cons tickTime clock)
  from Cons.prems(1) obtain y p1 where
    t: "statePlayTurn (allTopicsId p) tickTime p = Inr (y, p1)"
    by (auto split: sum.splits)
  from statePlayTurn_same_map [OF t Cons.prems(2)] Cons.prems(3) obtain k where
    m: "allTopicsId p1 = allTopicsId p" "state p1 = state p \<or> state p1 = Idle"
      "playbackIterator p1 = Some (drop k it)"
      "nextState p1 \<noteq> Some ResetPlaybackIterator"
    by auto
  show ?case
  proof (cases y)
    case Return
    with Cons.prems(1) t have "p' = p1" by simp
    with m show ?thesis by auto
  next
    case Continue
    with Cons.prems(1) t m(1) have l: "statePlayLoop (allTopicsId p1) clock p1 = Inr (x, p')"
      by simp
    from Cons.IH [OF l m(3) m(4)] obtain j where
      n: "allTopicsId p' = allTopicsId p1" "state p' = state p1 \<or> state p' = Idle"
        "playbackIterator p' = Some (drop j (drop k it))"
        "nextState p' \<noteq> Some ResetPlaybackIterator"
      by auto
    from n(3) have "playbackIterator p' = Some (drop (j + k) it)" by simp
    then have "\<exists>k. playbackIterator p' = Some (drop k it)" by blast
    with n m show ?thesis by auto
  qed
qed

text \<open>
  C4. The topics of the last call are not always the topics delivered. The player
  \<open>subscribedIdle\<close> is idle at 3.99 s and subscribed to \<^verbatim>\<open>/a\<close>; its iterator yields the
  two messages of \<^verbatim>\<open>/a\<close>. \<^verbatim>\<open>startPlayback()\<close> and then
  \<^verbatim>\<open>setSubscriptions([subA, subB])\<close> are called in one turn. The first call sets
  \<^verbatim>\<open>#isPlaying\<close> and requests the play state; the second stores the new map, with
  \<^verbatim>\<open>/b\<close>, but being in the idle state with \<^verbatim>\<open>#isPlaying\<close> set it requests no
  seek-backfill. The run loop then starts the play state with the iterator as it was;
  \<^verbatim>\<open>#statePlay\<close> keeps the new map as its reference, so its test of the identity of
  \<^verbatim>\<open>#allTopics\<close> never asks for a reset (\<open>statePlayLoop_same_map\<close>, for any number
  of ticks). Three ticks take the current time to 4.05 s and
  deliver the two messages of \<^verbatim>\<open>/a\<close>; the message of \<^verbatim>\<open>/b\<close> at 4.01 s, which an iterator
  opened for the new map yields, is not delivered.
\<close>

theorem startPlayback_then_setSubscriptions_misses_topic:
  "playbackIterator subscribedIdle
     = Some [ResultMessageEvent (topicMessage ''/a'' \<lparr>sec = 4, nsec = 0\<rparr>),
             ResultMessageEvent (topicMessage ''/a'' \<lparr>sec = 4, nsec = 20000000\<rparr>)]
   \<and> \<not> isl (startPlayback subscribedIdle)
   \<and> state playThenSubscribe = Play \<and> nextState playThenSubscribe = None
   \<and> isPlaying playThenSubscribe \<and> seekTarget playThenSubscribe = None
   \<and> startedStates (effects playThenSubscribe) = [Play]
   \<and> map fst (allTopics playThenSubscribe) = [''/a'', ''/b'']
   \<and> playbackIterator playThenSubscribe = playbackIterator subscribedIdle
   \<and> statePlayEnter playThenSubscribe = Inr (allTopicsId playThenSubscribe, playThenSubscribe)
   \<and> messages (snd (projr (statePlayLoop (allTopicsId playThenSubscribe) [1000] playThenSubscribe)))
       = [topicMessage ''/a'' \<lparr>sec = 4, nsec = 0\<rparr>]
   \<and> messages (snd (projr (statePlayLoop (allTopicsId playThenSubscribe) [1000, 1020]
         playThenSubscribe)))
       = [topicMessage ''/a'' \<lparr>sec = 4, nsec = 20000000\<rparr>]
   \<and> fst (projr (statePlayLoop (allTopicsId playThenSubscribe) [1000, 1020, 1040]
         playThenSubscribe)) = Continue
   \<and> messages (snd (projr (statePlayLoop (allTopicsId playThenSubscribe) [1000, 1020, 1040]
         playThenSubscribe))) = []
   \<and> currentTime (snd (projr (statePlayLoop (allTopicsId playThenSubscribe) [1000, 1020, 1040]
         playThenSubscribe))) = Some \<lparr>sec = 4, nsec = 50000000\<rparr>
   \<and> playbackIterator (snd (projr (statePlayLoop (allTopicsId playThenSubscribe) [1000, 1020, 1040]
         playThenSubscribe))) = Some []
   \<and> nextState (snd (projr (statePlayLoop (allTopicsId playThenSubscribe) [1000, 1020, 1040]
         playThenSubscribe))) = None
   \<and> startedStates (effects (snd (projr (statePlayLoop (allTopicsId playThenSubscribe)
         [1000, 1020, 1040] playThenSubscribe)))) = [Play]
   \<and> exampleIterator (allTopics playThenSubscribe) \<lparr>sec = 3, nsec = 990000001\<rparr>
       = [ResultMessageEvent (topicMessage ''/a'' \<lparr>sec = 4, nsec = 0\<rparr>),
          ResultMessageEvent (topicMessage ''/b'' \<lparr>sec = 4, nsec = 10000000\<rparr>),
          ResultMessageEvent (topicMessage ''/a'' \<lparr>sec = 4, nsec = 20000000\<rparr>)]"
  by code_simp

end
